theory Spec2Isabelle
  imports Complex_Main "HOL-Library.Word"
begin

section \<open>Shared vocabulary: errors, contexts, call results\<close>

text \<open>
  Go's \<open>error\<close> values that the modelled packages create or compare against, plus
  \<open>Errorf\<close> for every other error (identified by its message).  \<open>Canceled\<close> and
  \<open>DeadlineExceeded\<close> are the two values \<open>ctx.Err()\<close> can return.
\<close>

datatype error =
    ErrLimitExceed
  | ErrCircuitOpen
  | ErrOpenState
  | ErrTooManyRequests
  | Canceled
  | DeadlineExceeded
  | Errorf string

fun Error :: "error \<Rightarrow> string" where
  "Error ErrLimitExceed = ''rate limit exceeded''"
| "Error ErrCircuitOpen = ''circuit breaker is open''"
| "Error ErrOpenState = ''circuit breaker is open''"
| "Error ErrTooManyRequests = ''too many requests''"
| "Error Canceled = ''context canceled''"
| "Error DeadlineExceeded = ''context deadline exceeded''"
| "Error (Errorf s) = s"

text \<open>
  A \<open>context.Context\<close> as the tree the code builds: \<open>context.Background()\<close>, a context
  supplied from outside (named), \<open>context.WithCancel\<close> and \<open>context.WithValue\<close> (the only
  value stored is the application's id, name and version under \<open>appKey\<close>).
  Which cancel functions have fired is part of the program state: a set of contexts.
  A context is done when its own cancel fired or an ancestor is done.
\<close>

datatype Context =
    Background
  | Supplied string
  | WithCancel Context
  | WithValue Context "string \<times> string \<times> string"

fun ctx_done :: "Context set \<Rightarrow> Context \<Rightarrow> bool" where
  "ctx_done C Background = False"
| "ctx_done C (Supplied n) = (Supplied n \<in> C)"
| "ctx_done C (WithCancel p) = (WithCancel p \<in> C \<or> ctx_done C p)"
| "ctx_done C (WithValue p v) = ctx_done C p"

section \<open>Application lifecycle: \<open>app.go\<close> and its options\<close>

datatype ServerOption = transport_ID string | transport_Name string | transport_Version string

datatype Signal = SIGTERM | SIGINT | SIGQUIT | SIGHUP

text \<open>
  \<open>transport.Server\<close>: \<open>Init\<close> is called synchronously by \<open>New\<close>, so it is a function of
  its arguments and the program state \<open>'u\<close>, returning an error or nil and the new state.
  \<open>Start\<close> and \<open>Stop\<close> only ever run inside the tasks that \<open>Run\<close> hands to the error
  group; the model records the launch of each task and leaves their bodies to the
  environment, so a server needs no further field.
\<close>

record 'u Server =
  Init :: "ServerOption list \<Rightarrow> 'u \<Rightarrow> error option \<times> 'u"

text \<open>
  A lifecycle hook \<open>func(context.Context) error\<close>: it sees whether its context is done
  and acts on the program state.
\<close>

type_synonym 'u Hook = "bool \<Rightarrow> 'u \<Rightarrow> error option \<times> 'u"

record 'u options =
  opt_id :: string
  opt_name :: string
  opt_version :: string
  metadata :: "(string \<times> string) list"
  opt_ctx :: Context
  sigs :: "Signal list"
  registrarTimeout :: int
  stopTimeout :: int
  servers :: "'u Server list"
  beforeStart :: "'u Hook list"
  afterStart :: "'u Hook list"
  beforeStop :: "'u Hook list"
  afterStop :: "'u Hook list"

text \<open>
  An \<open>Option\<close> is a function that updates the options.  The options \<open>Context\<close>,
  \<open>Signal\<close> and \<open>Server\<close> of the package are \<open>WithContext\<close>, \<open>WithSignal\<close> and
  \<open>WithServer\<close> here, their names being those of types and of the middlewares; the
  fields \<open>id\<close>, \<open>name\<close>, \<open>version\<close> and \<open>ctx\<close> carry the prefix \<open>opt\<close>.
\<close>

type_synonym 'u Option = "'u options \<Rightarrow> 'u options"

definition ID :: "string \<Rightarrow> 'u Option" where
  "ID i = (\<lambda>cfg. cfg\<lparr>opt_id := i\<rparr>)"

definition Name :: "string \<Rightarrow> 'u Option" where
  "Name n = (\<lambda>cfg. cfg\<lparr>opt_name := n\<rparr>)"

definition Version :: "string \<Rightarrow> 'u Option" where
  "Version v = (\<lambda>cfg. cfg\<lparr>opt_version := v\<rparr>)"

definition Metadata :: "(string \<times> string) list \<Rightarrow> 'u Option" where
  "Metadata md = (\<lambda>cfg. cfg\<lparr>metadata := md\<rparr>)"

definition WithContext :: "Context \<Rightarrow> 'u Option" where
  "WithContext c = (\<lambda>cfg. cfg\<lparr>opt_ctx := c\<rparr>)"

definition WithSignal :: "Signal list \<Rightarrow> 'u Option" where
  "WithSignal ss = (\<lambda>cfg. cfg\<lparr>sigs := ss\<rparr>)"

definition RegistrarTimeout :: "int \<Rightarrow> 'u Option" where
  "RegistrarTimeout t = (\<lambda>cfg. cfg\<lparr>registrarTimeout := t\<rparr>)"

definition StopTimeout :: "int \<Rightarrow> 'u Option" where
  "StopTimeout t = (\<lambda>cfg. cfg\<lparr>stopTimeout := t\<rparr>)"

definition WithServer :: "'u Server list \<Rightarrow> 'u Option" where
  "WithServer srv = (\<lambda>cfg. cfg\<lparr>servers := servers cfg @ srv\<rparr>)"

definition BeforeStart :: "'u Hook \<Rightarrow> 'u Option" where
  "BeforeStart fn = (\<lambda>cfg. cfg\<lparr>beforeStart := beforeStart cfg @ [fn]\<rparr>)"

definition AfterStart :: "'u Hook \<Rightarrow> 'u Option" where
  "AfterStart fn = (\<lambda>cfg. cfg\<lparr>afterStart := afterStart cfg @ [fn]\<rparr>)"

definition BeforeStop :: "'u Hook \<Rightarrow> 'u Option" where
  "BeforeStop fn = (\<lambda>cfg. cfg\<lparr>beforeStop := beforeStop cfg @ [fn]\<rparr>)"

definition AfterStop :: "'u Hook \<Rightarrow> 'u Option" where
  "AfterStop fn = (\<lambda>cfg. cfg\<lparr>afterStop := afterStop cfg @ [fn]\<rparr>)"

text \<open>
  The program state seen by the lifecycle code: the cancel functions that have fired, the
  state \<open>'u\<close> that hooks and servers act on, and a log of the calls the lifecycle code
  makes, each with the position of the callee in its list and what it returned.
  \<open>GoStopWaiter\<close>, \<open>GoStart\<close> and \<open>GoSignalWatcher\<close> record the three kinds of task
  passed to \<open>eg.Go\<close>.
\<close>

datatype Phase = PBeforeStart | PAfterStart | PBeforeStop | PAfterStop

datatype Call =
    InitCall nat "ServerOption list" "error option"
  | HookCall Phase nat "error option"
  | GoStopWaiter nat
  | GoStart nat
  | GoSignalWatcher

record 'u World =
  cancelled :: "Context set"
  calls :: "Call list"
  user :: 'u

record 'u App =
  app_opts :: "'u options"
  app_ctx :: Context
  app_cancel :: "Context option"

definition default_options :: "'u options" where
  "default_options =
     \<lparr>opt_id = [], opt_name = [], opt_version = [], metadata = [],
      opt_ctx = Background, sigs = [SIGTERM, SIGINT, SIGQUIT],
      registrarTimeout = 10 * 1000000000, stopTimeout = 10 * 1000000000,
      servers = [], beforeStart = [], afterStart = [], beforeStop = [], afterStop = []\<rparr>"

definition apply_opts :: "'o \<Rightarrow> ('o \<Rightarrow> 'o) list \<Rightarrow> 'o" where
  "apply_opts cfg0 opts = foldl (\<lambda>cfg opt. opt cfg) cfg0 opts"

definition init_args :: "'u options \<Rightarrow> ServerOption list" where
  "init_args cfg = [transport_ID (opt_id cfg), transport_Name (opt_name cfg),
                    transport_Version (opt_version cfg)]"

text \<open>The loop \<open>for _, srv := range o.servers\<close> of \<open>New\<close>; \<open>i\<close> is the position of \<open>srv\<close>.\<close>

fun init_servers :: "'u options \<Rightarrow> nat \<Rightarrow> 'u Server list \<Rightarrow> 'u World \<Rightarrow> error option \<times> 'u World" where
  "init_servers cfg i [] w = (None, w)"
| "init_servers cfg i (srv # rest) w =
     (case Init srv (init_args cfg) (user w) of
        (r, u') \<Rightarrow>
          (let w' = w\<lparr>calls := calls w @ [InitCall i (init_args cfg) r], user := u'\<rparr>
           in case r of
                Some err \<Rightarrow> (Some err, w')
              | None \<Rightarrow> init_servers cfg (Suc i) rest w'))"

definition New :: "'u Option list \<Rightarrow> 'u World \<Rightarrow> (error + 'u App) \<times> 'u World" where
  "New opts w =
     (let cfg = apply_opts default_options opts in
      case init_servers cfg 0 (servers cfg) w of
        (Some err, w') \<Rightarrow> (Inl err, w')
      | (None, w') \<Rightarrow>
          (Inr \<lparr>app_opts = cfg, app_ctx = WithCancel (opt_ctx cfg),
                app_cancel = Some (WithCancel (opt_ctx cfg))\<rparr>, w'))"

definition NewContext :: "Context \<Rightarrow> 'u App \<Rightarrow> Context" where
  "NewContext c a =
     WithValue c (opt_id (app_opts a), opt_name (app_opts a), opt_version (app_opts a))"

text \<open>A loop \<open>for _, fn := range hooks { if err := fn(ctx); err != nil { return err } }\<close>.\<close>

fun run_hooks :: "Phase \<Rightarrow> Context \<Rightarrow> nat \<Rightarrow> 'u Hook list \<Rightarrow> 'u World \<Rightarrow> error option \<times> 'u World" where
  "run_hooks ph c i [] w = (None, w)"
| "run_hooks ph c i (fn # rest) w =
     (case fn (ctx_done (cancelled w) c) (user w) of
        (r, u') \<Rightarrow>
          (let w' = w\<lparr>calls := calls w @ [HookCall ph i r], user := u'\<rparr>
           in case r of
                Some err \<Rightarrow> (Some err, w')
              | None \<Rightarrow> run_hooks ph c (Suc i) rest w'))"

text \<open>
  The loop of \<open>Run\<close> over the servers: two \<open>eg.Go\<close> per server, the stop waiter first.
\<close>

fun launch_servers :: "nat \<Rightarrow> 'u Server list \<Rightarrow> 'u World \<Rightarrow> 'u World" where
  "launch_servers i [] w = w"
| "launch_servers i (srv # rest) w =
     launch_servers (Suc i) rest (w\<lparr>calls := calls w @ [GoStopWaiter i, GoStart i]\<rparr>)"

text \<open>
  \<open>Run\<close>.  Everything up to \<open>eg.Wait()\<close> is sequential code and is modelled as written:
  the \<open>beforeStart\<close> hooks, the two \<open>eg.Go\<close> per server, the \<open>afterStart\<close> hooks and
  the launch of the signal watcher.  What the launched tasks do, and so what \<open>eg.Wait()\<close>
  returns, is decided by the scheduler, the servers and the signals: it enters as the
  parameter \<open>egWait\<close>, the first error of the group (or nil) and the state the tasks
  leave.  The hooks receive the group's context; the model shows them whether the root
  context is done.
\<close>

definition Run :: "'u App \<Rightarrow> ('u \<Rightarrow> error option \<times> 'u) \<Rightarrow> 'u World \<Rightarrow> error option \<times> 'u World" where
  "Run a egWait w =
     (let c = NewContext (app_ctx a) a in
      case run_hooks PBeforeStart c 0 (beforeStart (app_opts a)) w of
        (Some err, w1) \<Rightarrow> (Some err, w1)
      | (None, w1) \<Rightarrow>
          (case run_hooks PAfterStart c 0 (afterStart (app_opts a))
                  (launch_servers 0 (servers (app_opts a)) w1) of
             (Some err, w3) \<Rightarrow> (Some err, w3)
           | (None, w3) \<Rightarrow>
               (case egWait (user w3) of
                  (r, u') \<Rightarrow>
                    (if r \<noteq> None \<and> r \<noteq> Some Canceled then r else None,
                     w3\<lparr>calls := calls w3 @ [GoSignalWatcher], user := u'\<rparr>))))"

definition Stop :: "'u App \<Rightarrow> 'u World \<Rightarrow> error option \<times> 'u World" where
  "Stop a w =
     (let c = NewContext (app_ctx a) a in
      case run_hooks PBeforeStop c 0 (beforeStop (app_opts a)) w of
        (Some err, w1) \<Rightarrow> (Some err, w1)
      | (None, w1) \<Rightarrow>
          run_hooks PAfterStop c 0 (afterStop (app_opts a))
            (case app_cancel a of
               None \<Rightarrow> w1
             | Some k \<Rightarrow> w1\<lparr>cancelled := insert k (cancelled w1)\<rparr>))"

subsection \<open>Concrete applications used to exercise the lifecycle\<close>

definition srv_ok :: "nat Server" where
  "srv_ok = \<lparr>Init = (\<lambda>args n. (None, Suc n))\<rparr>"

definition srv_fail :: "nat Server" where
  "srv_fail = \<lparr>Init = (\<lambda>args n. (Some (Errorf ''listen: address in use''), n))\<rparr>"

definition world0 :: "nat World" where
  "world0 = \<lparr>cancelled = {}, calls = [], user = 0\<rparr>"

definition three_servers :: "nat Option list" where
  "three_servers = [ID ''i1'', Name ''svc'', Version ''v1'', WithContext (Supplied ''parent''),
                    WithServer [srv_ok, srv_fail, srv_ok]]"

definition after_failed_init :: "nat World" where
  "after_failed_init =
     \<lparr>cancelled = {},
      calls = [InitCall 0 [transport_ID ''i1'', transport_Name ''svc'', transport_Version ''v1''] None,
               InitCall 1 [transport_ID ''i1'', transport_Name ''svc'', transport_Version ''v1'']
                 (Some (Errorf ''listen: address in use''))],
      user = 1\<rparr>"

definition hook_ok :: "nat Hook" where
  "hook_ok done n = (None, Suc n)"

definition hook_fail :: "nat Hook" where
  "hook_fail done n = (Some (Errorf ''migration failed''), n)"

definition failing_start_app :: "nat App" where
  "failing_start_app =
     \<lparr>app_opts = apply_opts default_options
                    [WithServer [srv_ok], BeforeStart hook_ok, BeforeStart hook_fail, BeforeStart hook_ok],
      app_ctx = WithCancel Background, app_cancel = Some (WithCancel Background)\<rparr>"

definition after_failed_hook :: "nat World" where
  "after_failed_hook =
     \<lparr>cancelled = {},
      calls = [HookCall PBeforeStart 0 None, HookCall PBeforeStart 1 (Some (Errorf ''migration failed''))],
      user = 1\<rparr>"

definition count_hook :: "nat Hook" where
  "count_hook done n = (None, Suc n)"

definition hooked_app :: "nat App" where
  "hooked_app =
     \<lparr>app_opts = apply_opts default_options [BeforeStop count_hook, AfterStop count_hook],
      app_ctx = WithCancel Background, app_cancel = Some (WithCancel Background)\<rparr>"

definition stopped_once :: "nat World" where
  "stopped_once = \<lparr>cancelled = {WithCancel Background},
                    calls = [HookCall PBeforeStop 0 None, HookCall PAfterStop 0 None], user = 2\<rparr>"

section \<open>Handlers and middleware\<close>

text \<open>
  Values of type \<open>interface{}\<close>: requests, replies and the argument of \<open>panic\<close>.
  \<open>fmt_v\<close> is the \<open>%v\<close> rendering used in messages.
\<close>

datatype Value = NilValue | Str string | ErrVal error


text \<open>
  A call of a handler either returns its two results \<open>(reply, err)\<close> or panics with a
  value.
\<close>

datatype Outcome = Return Value "error option" | Panic Value

text \<open>
  What the middleware reads from the \<open>context.Context\<close> of a call: the transport stored
  for the server side and for the client side (of which only \<open>Kind\<close> and \<open>Operation\<close> are
  used), and when the context becomes done and with which error.  A context with
  \<open>done_at = None\<close> is never done.
\<close>

record Transporter =
  Kind :: string
  Operation :: string

record Ctx =
  server_transport :: "Transporter option"
  client_transport :: "Transporter option"
  done_at :: "int option"
  done_err :: error

definition ctx_Err :: "Ctx \<Rightarrow> int \<Rightarrow> error option" where
  "ctx_Err ctx t = (case done_at ctx of
                      None \<Rightarrow> None
                    | Some d \<Rightarrow> if d \<le> t then Some (done_err ctx) else None)"

datatype Level = LevelInfo | LevelWarn | LevelError

text \<open>
  The token bucket of \<open>github.com/juju/ratelimit\<close> and the breaker of
  \<open>github.com/sony/gobreaker\<close> as data; their operations follow in the sections of the
  two middlewares.  Times and durations are nanoseconds.
\<close>

record Bucket =
  startTime :: int
  capacity :: int
  quantum :: int
  fillInterval :: int
  availableTokens :: int
  latestTick :: int

datatype State = StateClosed | StateHalfOpen | StateOpen

record Counts =
  Requests :: "32 word"
  TotalSuccesses :: "32 word"
  TotalFailures :: "32 word"
  ConsecutiveSuccesses :: "32 word"
  ConsecutiveFailures :: "32 word"

record CircuitBreaker =
  cb_name :: string
  cb_maxRequests :: "32 word"
  cb_interval :: int
  cb_timeout :: int
  cb_state :: State
  cb_generation :: "64 word"
  cb_counts :: Counts
  cb_expiry :: "int option"

text \<open>
  The state of the process as the middlewares see it: the clock, the lines written
  through \<open>klog\<close>, what \<open>runtime.Stack\<close> would write (for this goroutine, or for all when
  its argument is true), the variables captured by the middleware closures (\<open>bucket\<close> of
  the rate limiter, \<open>registry\<close> of the circuit breaker) and the state \<open>'u\<close> of the
  business handlers.  As in the source, a middleware maps a handler to a handler.
  \<open>Server\<close>, \<open>WithDisabled\<close> and the option records exist once per package and carry
  the package's name here; every \<open>Client\<close> has the text of its \<open>Server\<close> with the
  client-side transport and the word "client" in its messages.
\<close>

record 'u Proc =
  now :: int
  klog :: "(Level \<times> string) list"
  stack_dump :: "bool \<Rightarrow> string"
  bucket :: Bucket
  registry :: "string \<Rightarrow> CircuitBreaker option"
  hstate :: 'u

type_synonym 'u Handler = "Ctx \<Rightarrow> Value \<Rightarrow> 'u Proc \<Rightarrow> Outcome \<times> 'u Proc"

type_synonym 'u Middleware = "'u Handler \<Rightarrow> 'u Handler"

section \<open>Recovery middleware: \<open>middleware/recovery/recovery.go\<close>\<close>

text \<open>
  The options of the package.  \<open>stackSize\<close> is a Go \<open>int\<close>, taken as the signed 64-bit
  integer of a 64-bit platform and read with \<open>sint\<close>; \<open>WithStackSize\<close> stores whatever
  \<open>int\<close> it is given.
\<close>

record recovery_options =
  rec_disabled :: bool
  stackSize :: "64 word"
  disableStack :: bool
  disablePrint :: bool
  recoveryHandler :: "Ctx \<Rightarrow> Value \<Rightarrow> error option"

definition recovery_WithDisabled :: "bool \<Rightarrow> recovery_options \<Rightarrow> recovery_options" where
  "recovery_WithDisabled d = (\<lambda>cfg. cfg\<lparr>rec_disabled := d\<rparr>)"


definition WithDisableStackAll :: "bool \<Rightarrow> recovery_options \<Rightarrow> recovery_options" where
  "WithDisableStackAll d = (\<lambda>cfg. cfg\<lparr>disableStack := d\<rparr>)"

definition WithDisablePrintStack :: "bool \<Rightarrow> recovery_options \<Rightarrow> recovery_options" where
  "WithDisablePrintStack d = (\<lambda>cfg. cfg\<lparr>disablePrint := d\<rparr>)"

definition WithRecoveryHandler :: "(Ctx \<Rightarrow> Value \<Rightarrow> error option) \<Rightarrow> recovery_options \<Rightarrow> recovery_options" where
  "WithRecoveryHandler h = (\<lambda>cfg. cfg\<lparr>recoveryHandler := h\<rparr>)"






section \<open>Rate limiting: \<open>middleware/ratelimit/ratelimit.go\<close>\<close>

subsection \<open>The token bucket of \<open>github.com/juju/ratelimit\<close>\<close>

text \<open>
  The bucket is an imported package; its source is not part of the repository.  The
  operations the middleware calls are modelled after the package and its documentation.
  Tokens are added lazily, \<open>quantum\<close> tokens per elapsed \<open>fillInterval\<close>, up to
  \<open>capacity\<close>.  \<open>TakeAvailable(count)\<close> "takes up to count immediately available tokens
  from the bucket.  It returns the number of tokens removed, or zero if there are no
  available tokens.  It does not block."  (This is why the source compares its result
  with zero.)  \<open>Take(count)\<close> always takes \<open>count\<close> tokens, letting the balance go
  negative, and returns how long the caller must wait for them; \<open>Wait(count)\<close> takes and
  then sleeps for that time.  \<open>int64\<close> values are integers here: the claims concern no
  value near the ends of that range.
\<close>

text \<open>Go's integer division truncates towards zero.\<close>

definition go_div :: "int \<Rightarrow> int \<Rightarrow> int" where
  "go_div a b = sgn a * sgn b * (\<bar>a\<bar> div \<bar>b\<bar>)"

text \<open>
  \<open>NewBucketWithQuantum\<close>: a full bucket created at time \<open>t0\<close>.  (It panics unless
  the fill interval, the capacity and the quantum are positive.)  \<open>NewBucketWithRate\<close>,
  which the middleware calls, searches a quantum and a fill interval that approximate a
  \<open>float64\<close> rate within one percent; for a rate of 10 per second that is one token per
  100 milliseconds.
\<close>

definition NewBucketWithQuantum :: "int \<Rightarrow> int \<Rightarrow> int \<Rightarrow> int \<Rightarrow> Bucket option" where
  "NewBucketWithQuantum fill cap q t0 =
     (if fill \<le> 0 \<or> cap \<le> 0 \<or> q \<le> 0 then None
      else Some \<lparr>startTime = t0, capacity = cap, quantum = q, fillInterval = fill,
                 availableTokens = cap, latestTick = 0\<rparr>)"

definition currentTick :: "Bucket \<Rightarrow> int \<Rightarrow> int" where
  "currentTick tb t = go_div (t - startTime tb) (fillInterval tb)"

definition adjustavailableTokens :: "Bucket \<Rightarrow> int \<Rightarrow> Bucket" where
  "adjustavailableTokens tb tick =
     (let tb1 = tb\<lparr>latestTick := tick\<rparr> in
      if capacity tb \<le> availableTokens tb then tb1
      else tb1\<lparr>availableTokens :=
                  min (capacity tb) (availableTokens tb + (tick - latestTick tb) * quantum tb)\<rparr>)"

definition TakeAvailable :: "Bucket \<Rightarrow> int \<Rightarrow> int \<Rightarrow> int \<times> Bucket" where
  "TakeAvailable tb t count =
     (if count \<le> 0 then (0, tb)
      else (let tb1 = adjustavailableTokens tb (currentTick tb t) in
            if availableTokens tb1 \<le> 0 then (0, tb1)
            else (let n = (if availableTokens tb1 < count then availableTokens tb1 else count)
                  in (n, tb1\<lparr>availableTokens := availableTokens tb1 - n\<rparr>))))"

definition Take :: "Bucket \<Rightarrow> int \<Rightarrow> int \<Rightarrow> int \<times> Bucket" where
  "Take tb t count =
     (if count \<le> 0 then (0, tb)
      else (let tick = currentTick tb t;
                tb1 = adjustavailableTokens tb tick;
                avail = availableTokens tb1 - count
            in if 0 \<le> avail then (0, tb1\<lparr>availableTokens := avail\<rparr>)
               else (let endTick = tick + go_div (- avail + quantum tb1 - 1) (quantum tb1);
                         endTime = startTime tb1 + endTick * fillInterval tb1
                     in (endTime - t, tb1\<lparr>availableTokens := avail\<rparr>))))"

text \<open>
  The two bucket calls on the process state: \<open>bucket.TakeAvailable\<close> reads the clock;
  \<open>bucket.Wait\<close> sleeps for the duration \<open>Take\<close> returned, so the clock has advanced by
  it when the call returns.
\<close>

definition bucket_TakeAvailable :: "int \<Rightarrow> 'u Proc \<Rightarrow> int \<times> 'u Proc" where
  "bucket_TakeAvailable count w =
     (case TakeAvailable (bucket w) (now w) count of (n, tb) \<Rightarrow> (n, w\<lparr>bucket := tb\<rparr>))"

definition bucket_Wait :: "int \<Rightarrow> 'u Proc \<Rightarrow> 'u Proc" where
  "bucket_Wait count w =
     (case Take (bucket w) (now w) count of
        (d, tb) \<Rightarrow> if 0 < d then w\<lparr>bucket := tb, now := now w + d\<rparr> else w\<lparr>bucket := tb\<rparr>)"

subsection \<open>The middleware and the helpers of the package\<close>

text \<open>
  \<open>rate\<close> is a \<open>float64\<close> that is only handed to \<open>NewBucketWithRate\<close> when the middleware
  is built; the bucket built from it is the \<open>bucket\<close> of the process state.
\<close>

record ratelimit_options =
  rl_disabled :: bool
  rl_capacity :: int
  rl_rate :: real
  waitIfFull :: bool

definition ratelimit_WithDisabled :: "bool \<Rightarrow> ratelimit_options \<Rightarrow> ratelimit_options" where
  "ratelimit_WithDisabled d = (\<lambda>cfg. cfg\<lparr>rl_disabled := d\<rparr>)"

definition WithCapacity :: "int \<Rightarrow> ratelimit_options \<Rightarrow> ratelimit_options" where
  "WithCapacity c = (\<lambda>cfg. cfg\<lparr>rl_capacity := c\<rparr>)"

definition WithRate :: "real \<Rightarrow> ratelimit_options \<Rightarrow> ratelimit_options" where
  "WithRate r = (\<lambda>cfg. cfg\<lparr>rl_rate := r\<rparr>)"

definition WithWaitIfFull :: "bool \<Rightarrow> ratelimit_options \<Rightarrow> ratelimit_options" where
  "WithWaitIfFull b = (\<lambda>cfg. cfg\<lparr>waitIfFull := b\<rparr>)"

definition ratelimit_defaults :: ratelimit_options where
  "ratelimit_defaults = \<lparr>rl_disabled = False, rl_capacity = 100, rl_rate = 100, waitIfFull = False\<rparr>"

text \<open>The \<open>kind\<close> and \<open>operation\<close> strings used in log lines; both empty without a transport.\<close>

definition kind_operation :: "Transporter option \<Rightarrow> string \<times> string" where
  "kind_operation tr = (case tr of None \<Rightarrow> ([], []) | Some t \<Rightarrow> (Kind t, Operation t))"

definition limit_warning :: "Ctx \<Rightarrow> Level \<times> string" where
  "limit_warning ctx =
     (case kind_operation (server_transport ctx) of
        (kind, operation) \<Rightarrow>
          (LevelWarn, ''['' @ kind @ ''] server '' @ operation @ '' rate limit exceeded''))"

definition ratelimit_Server :: "(ratelimit_options \<Rightarrow> ratelimit_options) list \<Rightarrow> 'u Middleware" where
  "ratelimit_Server opts =
     (let cfg = apply_opts ratelimit_defaults opts in
      if rl_disabled cfg then (\<lambda>handler. handler)
      else (\<lambda>handler ctx req w.
        if waitIfFull cfg then handler ctx req (bucket_Wait 1 w)
        else (case bucket_TakeAvailable 1 w of
                (n, w1) \<Rightarrow>
                  if 0 < n then handler ctx req w1
                  else (Return NilValue (Some ErrLimitExceed),
                        w1\<lparr>klog := klog w1 @ [limit_warning ctx]\<rparr>))))"

text \<open>
  \<open>Wait\<close>, \<open>Allow\<close> and \<open>AllowN\<close> take the limiter as an argument; the model passes the
  bucket and the time of the call, and returns the bucket as the call leaves it.  \<open>Wait\<close>
  also returns the time at which it returns.
\<close>

definition Wait :: "Ctx \<Rightarrow> Bucket \<Rightarrow> int \<Rightarrow> int \<Rightarrow> error option \<times> Bucket \<times> int" where
  "Wait ctx limiter t n =
     (case ctx_Err ctx t of
        Some e \<Rightarrow> (Some e, limiter, t)
      | None \<Rightarrow> (case Take limiter t n of
                   (d, tb) \<Rightarrow> (None, tb, if 0 < d then t + d else t)))"

definition Allow :: "Bucket \<Rightarrow> int \<Rightarrow> int \<Rightarrow> bool \<times> Bucket" where
  "Allow limiter t n = (case TakeAvailable limiter t n of (k, tb) \<Rightarrow> (0 < k, tb))"

definition AllowN :: "Bucket \<Rightarrow> int \<Rightarrow> int \<Rightarrow> int \<Rightarrow> bool \<times> Bucket" where
  "AllowN limiter t when n = (case TakeAvailable limiter t n of (k, tb) \<Rightarrow> (0 < k, tb))"

section \<open>Circuit breaking: package \<open>circuitbreaker\<close>\<close>

subsection \<open>The breaker of \<open>github.com/sony/gobreaker\<close>\<close>

text \<open>
  Modelled from the spec: the breaker's state machine, that is \<open>NewCircuitBreaker\<close> and
  \<open>Execute\<close> of the imported package \<open>gobreaker\<close>, whose source is not part of the
  repository.  The definitions follow section 4.4 of the specification: a Closed breaker
  admits every call and counts its outcome, and trips to Open, with a new generation and
  \<open>expiry = now + timeout\<close>, when \<open>readyToTrip\<close> holds of the counts; a non-zero
  \<open>interval\<close> clears the counts of a Closed breaker when it elapses; an Open breaker
  rejects every call until its expiry has passed, then becomes HalfOpen; a HalfOpen breaker
  admits up to \<open>maxRequests\<close> calls, returns to Open on one failure and closes after
  \<open>maxRequests\<close> consecutive successes; an outcome that arrives under an older
  generation is dropped.  In two details the definitions follow the package where the
  specification is coarser: the trip predicate is evaluated after a failed call only, and
  a deadline has passed when it lies strictly before the time of the call.  Each function
  returns the breaker together with the state changes to report to \<open>onStateChange\<close>.
\<close>

definition no_counts :: Counts where
  "no_counts = \<lparr>Requests = 0, TotalSuccesses = 0, TotalFailures = 0,
                 ConsecutiveSuccesses = 0, ConsecutiveFailures = 0\<rparr>"

definition onRequest :: "Counts \<Rightarrow> Counts" where
  "onRequest c = c\<lparr>Requests := Requests c + 1\<rparr>"

definition counts_onSuccess :: "Counts \<Rightarrow> Counts" where
  "counts_onSuccess c = c\<lparr>TotalSuccesses := TotalSuccesses c + 1,
                           ConsecutiveSuccesses := ConsecutiveSuccesses c + 1,
                           ConsecutiveFailures := 0\<rparr>"

definition counts_onFailure :: "Counts \<Rightarrow> Counts" where
  "counts_onFailure c = c\<lparr>TotalFailures := TotalFailures c + 1,
                           ConsecutiveFailures := ConsecutiveFailures c + 1,
                           ConsecutiveSuccesses := 0\<rparr>"

definition toNewGeneration :: "CircuitBreaker \<Rightarrow> int \<Rightarrow> CircuitBreaker" where
  "toNewGeneration cb t =
     cb\<lparr>cb_generation := cb_generation cb + 1,
        cb_counts := no_counts,
        cb_expiry := (case cb_state cb of
                        StateClosed \<Rightarrow> if cb_interval cb = 0 then None else Some (t + cb_interval cb)
                      | StateOpen \<Rightarrow> Some (t + cb_timeout cb)
                      | StateHalfOpen \<Rightarrow> None)\<rparr>"

definition setState :: "CircuitBreaker \<Rightarrow> State \<Rightarrow> int \<Rightarrow> CircuitBreaker \<times> (State \<times> State) list" where
  "setState cb st t =
     (if cb_state cb = st then (cb, [])
      else (toNewGeneration (cb\<lparr>cb_state := st\<rparr>) t, [(cb_state cb, st)]))"

text \<open>\<open>expiry.Before(now)\<close>; the zero time (no expiry) lies before every time of a call.\<close>

definition expiry_before :: "int option \<Rightarrow> int \<Rightarrow> bool" where
  "expiry_before e t = (case e of None \<Rightarrow> True | Some d \<Rightarrow> d < t)"

definition currentState :: "CircuitBreaker \<Rightarrow> int \<Rightarrow> CircuitBreaker \<times> (State \<times> State) list" where
  "currentState cb t =
     (case cb_state cb of
        StateClosed \<Rightarrow>
          if cb_expiry cb \<noteq> None \<and> expiry_before (cb_expiry cb) t then (toNewGeneration cb t, [])
          else (cb, [])
      | StateOpen \<Rightarrow>
          if expiry_before (cb_expiry cb) t then setState cb StateHalfOpen t else (cb, [])
      | StateHalfOpen \<Rightarrow> (cb, []))"

definition beforeRequest ::
  "CircuitBreaker \<Rightarrow> int \<Rightarrow> CircuitBreaker \<times> (State \<times> State) list \<times> (error + 64 word)" where
  "beforeRequest cb t =
     (case currentState cb t of
        (cb1, changes) \<Rightarrow>
          if cb_state cb1 = StateOpen then (cb1, changes, Inl ErrOpenState)
          else if cb_state cb1 = StateHalfOpen \<and> cb_maxRequests cb1 \<le> Requests (cb_counts cb1)
          then (cb1, changes, Inl ErrTooManyRequests)
          else (cb1\<lparr>cb_counts := onRequest (cb_counts cb1)\<rparr>, changes, Inr (cb_generation cb1)))"

definition onSuccess :: "CircuitBreaker \<Rightarrow> int \<Rightarrow> CircuitBreaker \<times> (State \<times> State) list" where
  "onSuccess cb t =
     (case cb_state cb of
        StateClosed \<Rightarrow> (cb\<lparr>cb_counts := counts_onSuccess (cb_counts cb)\<rparr>, [])
      | StateHalfOpen \<Rightarrow>
          (let cb1 = cb\<lparr>cb_counts := counts_onSuccess (cb_counts cb)\<rparr> in
           if cb_maxRequests cb1 \<le> ConsecutiveSuccesses (cb_counts cb1)
           then setState cb1 StateClosed t else (cb1, []))
      | StateOpen \<Rightarrow> (cb, []))"

definition onFailure ::
  "(Counts \<Rightarrow> bool) \<Rightarrow> CircuitBreaker \<Rightarrow> int \<Rightarrow> CircuitBreaker \<times> (State \<times> State) list" where
  "onFailure trip cb t =
     (case cb_state cb of
        StateClosed \<Rightarrow>
          (let cb1 = cb\<lparr>cb_counts := counts_onFailure (cb_counts cb)\<rparr> in
           if trip (cb_counts cb1) then setState cb1 StateOpen t else (cb1, []))
      | StateHalfOpen \<Rightarrow> setState cb StateOpen t
      | StateOpen \<Rightarrow> (cb, []))"

definition afterRequest ::
  "(Counts \<Rightarrow> bool) \<Rightarrow> CircuitBreaker \<Rightarrow> 64 word \<Rightarrow> bool \<Rightarrow> int
     \<Rightarrow> CircuitBreaker \<times> (State \<times> State) list" where
  "afterRequest trip cb before success t =
     (case currentState cb t of
        (cb1, changes) \<Rightarrow>
          if cb_generation cb1 \<noteq> before then (cb1, changes)
          else (case (if success then onSuccess cb1 t else onFailure trip cb1 t) of
                  (cb2, changes2) \<Rightarrow> (cb2, changes @ changes2)))"

text \<open>
  The settings the middleware passes, with the package's replacements for zero values:
  at most one trial call, no interval, a timeout of sixty seconds.
\<close>

definition gobreaker_NewCircuitBreaker :: "string \<Rightarrow> 32 word \<Rightarrow> int \<Rightarrow> int \<Rightarrow> int \<Rightarrow> CircuitBreaker" where
  "gobreaker_NewCircuitBreaker nm maxReq ival tout t =
     toNewGeneration
       \<lparr>cb_name = nm,
        cb_maxRequests = (if maxReq = 0 then 1 else maxReq),
        cb_interval = (if ival \<le> 0 then 0 else ival),
        cb_timeout = (if tout \<le> 0 then 60 * 1000000000 else tout),
        cb_state = StateClosed, cb_generation = 0, cb_counts = no_counts, cb_expiry = None\<rparr> t"

subsection \<open>The middleware\<close>

text \<open>
  The options of the package.  The function-valued options are taken to be set to
  functions (not to nil).  \<open>onStateChange\<close> acts on the log and on the handlers' state.
\<close>

record 'u circuitbreaker_options =
  cbo_disabled :: bool
  cbo_name :: string
  maxRequests :: "32 word"
  interval :: int
  timeout :: int
  readyToTrip :: "Counts \<Rightarrow> bool"
  onStateChange :: "string \<Rightarrow> State \<Rightarrow> State \<Rightarrow> (Level \<times> string) list \<times> 'u \<Rightarrow> (Level \<times> string) list \<times> 'u"
  isSuccessful :: "error option \<Rightarrow> bool"
  fallbackHandler :: "'u Handler"
  circuitBreakerName :: "Ctx \<Rightarrow> string"

type_synonym 'u cb_Option = "'u circuitbreaker_options \<Rightarrow> 'u circuitbreaker_options"

definition circuitbreaker_WithDisabled :: "bool \<Rightarrow> 'u cb_Option" where
  "circuitbreaker_WithDisabled d = (\<lambda>cfg. cfg\<lparr>cbo_disabled := d\<rparr>)"

definition WithName :: "string \<Rightarrow> 'u cb_Option" where
  "WithName n = (\<lambda>cfg. cfg\<lparr>cbo_name := n\<rparr>)"

definition WithMaxRequests :: "32 word \<Rightarrow> 'u cb_Option" where
  "WithMaxRequests n = (\<lambda>cfg. cfg\<lparr>maxRequests := n\<rparr>)"

definition WithInterval :: "int \<Rightarrow> 'u cb_Option" where
  "WithInterval d = (\<lambda>cfg. cfg\<lparr>interval := d\<rparr>)"

definition WithTimeout :: "int \<Rightarrow> 'u cb_Option" where
  "WithTimeout d = (\<lambda>cfg. cfg\<lparr>timeout := d\<rparr>)"

definition WithReadyToTrip :: "(Counts \<Rightarrow> bool) \<Rightarrow> 'u cb_Option" where
  "WithReadyToTrip fn = (\<lambda>cfg. cfg\<lparr>readyToTrip := fn\<rparr>)"

definition WithOnStateChange ::
  "(string \<Rightarrow> State \<Rightarrow> State \<Rightarrow> (Level \<times> string) list \<times> 'u \<Rightarrow> (Level \<times> string) list \<times> 'u) \<Rightarrow> 'u cb_Option" where
  "WithOnStateChange fn = (\<lambda>cfg. cfg\<lparr>onStateChange := fn\<rparr>)"

definition WithIsSuccessful :: "(error option \<Rightarrow> bool) \<Rightarrow> 'u cb_Option" where
  "WithIsSuccessful fn = (\<lambda>cfg. cfg\<lparr>isSuccessful := fn\<rparr>)"

definition WithFallbackHandler :: "'u Handler \<Rightarrow> 'u cb_Option" where
  "WithFallbackHandler fn = (\<lambda>cfg. cfg\<lparr>fallbackHandler := fn\<rparr>)"

definition WithCircuitBreakerName :: "(Ctx \<Rightarrow> string) \<Rightarrow> 'u cb_Option" where
  "WithCircuitBreakerName fn = (\<lambda>cfg. cfg\<lparr>circuitBreakerName := fn\<rparr>)"

fun State_String :: "State \<Rightarrow> string" where
  "State_String StateClosed = ''closed''"
| "State_String StateHalfOpen = ''half-open''"
| "State_String StateOpen = ''open''"

text \<open>
  The default trip predicate divides two \<open>uint32\<close> counts as \<open>float64\<close> and compares
  with 0.5; for such operands the rounded quotient is at least 0.5 exactly when the exact
  one is.  With no requests the quotient is not a number and the first conjunct is false.
\<close>

definition default_readyToTrip :: "Counts \<Rightarrow> bool" where
  "default_readyToTrip counts =
     (10 \<le> unat (Requests counts) \<and>
      1 / 2 \<le> real (unat (TotalFailures counts)) / real (unat (Requests counts)))"

definition circuitbreaker_defaults :: "'u circuitbreaker_options" where
  "circuitbreaker_defaults =
     \<lparr>cbo_disabled = False, cbo_name = ''server'', maxRequests = 100,
      interval = 60 * 1000000000, timeout = 60 * 1000000000,
      readyToTrip = default_readyToTrip,
      onStateChange = (\<lambda>name from to (lg, u).
         (lg @ [(LevelInfo, ''Circuit breaker '' @ name @ '' changed from '' @ State_String from
                            @ '' to '' @ State_String to)], u)),
      isSuccessful = (\<lambda>err. err = None),
      fallbackHandler = (\<lambda>ctx req w. (Return NilValue (Some ErrCircuitOpen), w)),
      circuitBreakerName = (\<lambda>ctx. case server_transport ctx of
                                      Some tr \<Rightarrow> ''server_'' @ Operation tr
                                    | None \<Rightarrow> ''server'')\<rparr>"

text \<open>
  Writing a breaker back under its registry key and reporting its state changes, in
  order, to \<open>onStateChange\<close>.
\<close>

definition report :: "'u circuitbreaker_options \<Rightarrow> string \<Rightarrow> (State \<times> State) list \<Rightarrow> 'u Proc \<Rightarrow> 'u Proc" where
  "report cfg nm changes w =
     (case foldl (\<lambda>s (from, to). onStateChange cfg nm from to s) (klog w, hstate w) changes of
        (lg, u) \<Rightarrow> w\<lparr>klog := lg, hstate := u\<rparr>)"

definition store :: "'u circuitbreaker_options \<Rightarrow> string \<Rightarrow> CircuitBreaker \<times> (State \<times> State) list \<Rightarrow> 'u Proc \<Rightarrow> 'u Proc" where
  "store cfg key r w =
     (case r of (cb, changes) \<Rightarrow> report cfg (cb_name cb) changes (w\<lparr>registry := (registry w)(key \<mapsto> cb)\<rparr>))"

text \<open>
  \<open>cb.Execute(req)\<close> for the breaker \<open>cb\<close> held under \<open>key\<close>.  The breaker is reached
  through a pointer: after the request has run, its state is the one the registry holds
  then under \<open>key\<close> (entries are never removed or replaced by a single task; were the
  entry gone, the breaker is as it was when the request was admitted).  A request that
  panics is counted as a failure and the panic goes on.
\<close>

definition Execute ::
  "'u circuitbreaker_options \<Rightarrow> string \<Rightarrow> CircuitBreaker \<Rightarrow> ('u Proc \<Rightarrow> Outcome \<times> 'u Proc) \<Rightarrow> 'u Proc
     \<Rightarrow> Outcome \<times> 'u Proc" where
  "Execute cfg key cb req w =
     (case beforeRequest cb (now w) of
        (cb1, changes, Inl err) \<Rightarrow> (Return NilValue (Some err), store cfg key (cb1, changes) w)
      | (cb1, changes, Inr generation) \<Rightarrow>
          (case req (store cfg key (cb1, changes) w) of
             (out, w3) \<Rightarrow>
               (let cb3 = (case registry w3 key of Some c \<Rightarrow> c | None \<Rightarrow> cb1);
                    success = (case out of Return result err \<Rightarrow> isSuccessful cfg err | Panic e \<Rightarrow> False)
                in (out, store cfg key (afterRequest (readyToTrip cfg) cb3 generation success (now w3)) w3))))"

definition open_warning :: "Ctx \<Rightarrow> Level \<times> string" where
  "open_warning ctx =
     (case kind_operation (server_transport ctx) of
        (kind, operation) \<Rightarrow>
          (LevelWarn, ''['' @ kind @ ''] server '' @ operation @ '' circuit breaker is open''))"

text \<open>The lookup \<open>registry[name]\<close> of the handler and the creation on a miss.\<close>

definition get_or_create :: "'u circuitbreaker_options \<Rightarrow> string \<Rightarrow> 'u Proc \<Rightarrow> CircuitBreaker \<times> 'u Proc" where
  "get_or_create cfg nm w =
     (case registry w nm of
        Some cb \<Rightarrow> (cb, w)
      | None \<Rightarrow>
          (let cb = gobreaker_NewCircuitBreaker nm (maxRequests cfg) (interval cfg) (timeout cfg) (now w)
           in (cb, w\<lparr>registry := (registry w)(nm \<mapsto> cb)\<rparr>)))"

definition circuitbreaker_Server :: "'u cb_Option list \<Rightarrow> 'u Middleware" where
  "circuitbreaker_Server opts =
     (let cfg = apply_opts circuitbreaker_defaults opts in
      if cbo_disabled cfg then (\<lambda>handler. handler)
      else (\<lambda>handler ctx req w.
        (let nm = circuitBreakerName cfg ctx in
         case get_or_create cfg nm w of
           (cb, w1) \<Rightarrow>
             (case Execute cfg nm cb (handler ctx req) w1 of
                (Panic e, w2) \<Rightarrow> (Panic e, w2)
              | (Return result err, w2) \<Rightarrow>
                  if err = Some ErrOpenState
                  then fallbackHandler cfg ctx req (w2\<lparr>klog := klog w2 @ [open_warning ctx]\<rparr>)
                  else (Return result err, w2)))))"

text \<open>
  Calls made one after the other through a wrapped handler, each given by its context and
  request; the counts of a Closed breaker after one more admitted and failed call; and
  handlers that fail on every call (by a panic, or with an error that \<open>isSuccessful\<close>
  rejects and that is not the breaker's own \<open>ErrOpenState\<close>), take no time and make no
  call through the registry themselves.
\<close>

primrec serve_all :: "'u Handler \<Rightarrow> (Ctx \<times> Value) list \<Rightarrow> 'u Proc \<Rightarrow> 'u Proc" where
  "serve_all h [] w = w"
| "serve_all h (c # cs) w = serve_all h cs (snd (h (fst c) (snd c) w))"

definition fail_counts :: "Counts \<Rightarrow> Counts" where
  "fail_counts c = counts_onFailure (onRequest c)"

definition plain_failing :: "'u circuitbreaker_options \<Rightarrow> 'u Handler \<Rightarrow> bool" where
  "plain_failing cfg h =
     (\<forall>ctx req w.
        (case fst (h ctx req w) of
           Panic e \<Rightarrow> True
         | Return result err \<Rightarrow> \<not> isSuccessful cfg err \<and> err \<noteq> Some ErrOpenState) \<and>
        registry (snd (h ctx req w)) = registry w \<and> now (snd (h ctx req w)) = now w)"

subsection \<open>Two tasks at the registry\<close>

text \<open>
  The handler reads \<open>registry[name]\<close> and, on a miss, creates a breaker and writes
  \<open>registry[name] = cb\<close>; no lock is held between the read and the write.  To follow
  several tasks through these two accesses, each task has a local state (before the lookup,
  after a miss, or holding a breaker in its variable \<open>cb\<close>), a schedule names the task
  that takes the next step, and \<open>made\<close> lists the breakers created, by task and key.
  Each access is taken as one indivisible step, which is the most the unsynchronised map
  can be expected to give.
\<close>

datatype Local = AtLookup | Missed | Holding CircuitBreaker

record 'u Racing =
  shared :: "'u Proc"
  locals :: "Local list"
  made :: "(nat \<times> string) list"

definition task_step :: "'u circuitbreaker_options \<Rightarrow> string \<Rightarrow> nat \<Rightarrow> 'u Racing \<Rightarrow> 'u Racing" where
  "task_step cfg nm i s =
     (if length (locals s) \<le> i then s
      else (case locals s ! i of
              AtLookup \<Rightarrow>
                (case registry (shared s) nm of
                   Some cb \<Rightarrow> s\<lparr>locals := (locals s)[i := Holding cb]\<rparr>
                 | None \<Rightarrow> s\<lparr>locals := (locals s)[i := Missed]\<rparr>)
            | Missed \<Rightarrow>
                (let cb = gobreaker_NewCircuitBreaker nm (maxRequests cfg) (interval cfg) (timeout cfg)
                            (now (shared s))
                 in s\<lparr>shared := (shared s)\<lparr>registry := (registry (shared s))(nm \<mapsto> cb)\<rparr>,
                       locals := (locals s)[i := Holding cb],
                       made := made s @ [(i, nm)]\<rparr>)
            | Holding cb \<Rightarrow> s))"

fun run_schedule :: "'u circuitbreaker_options \<Rightarrow> string \<Rightarrow> nat list \<Rightarrow> 'u Racing \<Rightarrow> 'u Racing" where
  "run_schedule cfg nm [] s = s"
| "run_schedule cfg nm (i # rest) s = run_schedule cfg nm rest (task_step cfg nm i s)"

text \<open>
  Calls that do not overlap: each task of \<open>order\<close> in turn takes both of its steps
  before the next task takes its first.
\<close>

definition one_by_one :: "nat list \<Rightarrow> nat list" where
  "one_by_one order = concat (map (\<lambda>i. [i, i]) order)"

section \<open>Concrete handlers, buckets and breakers\<close>

definition ten_per_second :: Bucket where
  "ten_per_second = \<lparr>startTime = 0, capacity = 10, quantum = 1, fillInterval = 100000000,
                      availableTokens = 10, latestTick = 0\<rparr>"

fun Allow_each :: "Bucket \<Rightarrow> (int \<times> int) list \<Rightarrow> bool list \<times> Bucket" where
  "Allow_each tb [] = ([], tb)"
| "Allow_each tb ((t, n) # rest) =
     (case Allow tb t n of
        (ok, tb1) \<Rightarrow> (case Allow_each tb1 rest of (oks, tb2) \<Rightarrow> (ok # oks, tb2)))"

definition drained :: Bucket where
  "drained = ten_per_second\<lparr>availableTokens := 0\<rparr>"

definition bare_ctx :: Ctx where
  "bare_ctx = \<lparr>server_transport = None, client_transport = None, done_at = None, done_err = Canceled\<rparr>"

definition proc0 :: "nat Proc" where
  "proc0 = \<lparr>now = 0, klog = [], stack_dump = (\<lambda>all. ''goroutine 1 [running]:''),
            bucket = ten_per_second, registry = (\<lambda>key. None), hstate = 0\<rparr>"

definition echo :: "nat Handler" where
  "echo ctx req w = (Return req None, w\<lparr>hstate := Suc (hstate w)\<rparr>)"

definition cancelled_ctx :: Ctx where
  "cancelled_ctx = bare_ctx\<lparr>done_at := Some 0\<rparr>"

definition cancelling_ctx :: Ctx where
  "cancelling_ctx = bare_ctx\<lparr>done_at := Some 60\<rparr>"


definition always_down :: "nat Handler" where
  "always_down ctx req w = (Return NilValue (Some (Errorf ''down'')), w\<lparr>hstate := Suc (hstate w)\<rparr>)"

definition failing_breaker :: "nat \<Rightarrow> CircuitBreaker" where
  "failing_breaker n =
     \<lparr>cb_name = ''server'', cb_maxRequests = 100, cb_interval = 60000000000, cb_timeout = 60000000000,
      cb_state = StateClosed, cb_generation = 1,
      cb_counts = \<lparr>Requests = of_nat n, TotalSuccesses = 0, TotalFailures = of_nat n,
                   ConsecutiveSuccesses = 0, ConsecutiveFailures = of_nat n\<rparr>,
      cb_expiry = Some 60000000000\<rparr>"

definition after_failures :: "nat \<Rightarrow> nat Proc" where
  "after_failures n = proc0\<lparr>registry := (\<lambda>key. None)(''server'' \<mapsto> failing_breaker n), hstate := n\<rparr>"

definition tripped_breaker :: CircuitBreaker where
  "tripped_breaker =
     \<lparr>cb_name = ''server'', cb_maxRequests = 100, cb_interval = 60000000000, cb_timeout = 60000000000,
      cb_state = StateOpen, cb_generation = 2, cb_counts = no_counts, cb_expiry = Some 60000000000\<rparr>"

definition tripped :: "nat Proc" where
  "tripped = proc0\<lparr>klog := [(LevelInfo, ''Circuit breaker server changed from closed to open'')],
                   registry := (\<lambda>key. None)(''server'' \<mapsto> tripped_breaker), hstate := 10\<rparr>"

definition two_tasks :: "nat Racing" where
  "two_tasks = \<lparr>shared = proc0, locals = [AtLookup, AtLookup], made = []\<rparr>"

section \<open>Properties of the application lifecycle\<close>

lemma upt_shift: "[i..<Suc (i + k)] = i # [Suc i..<Suc (i + k)]"
  by (simp add: upt_conv_Cons del: upt_Suc)

lemma init_servers_log:
  "init_servers cfg i srvs w = (r, w') \<Longrightarrow>
     cancelled w' = cancelled w \<and>
     (case r of
        None \<Rightarrow> calls w' = calls w @ map (\<lambda>j. InitCall j (init_args cfg) None) [i..<i + length srvs]
      | Some err \<Rightarrow> (\<exists>k<length srvs.
           calls w' = calls w @ map (\<lambda>j. InitCall j (init_args cfg) None) [i..<i + k]
                        @ [InitCall (i + k) (init_args cfg) (Some err)]
           \<and> (\<exists>u. fst (Init (srvs ! k) (init_args cfg) u) = Some err)))"
proof (induction srvs arbitrary: i w)
  case Nil
  then show ?case by simp
next
  case (Cons srv rest)
  obtain r0 u0 where I: "Init srv (init_args cfg) (user w) = (r0, u0)" by (cases "Init srv (init_args cfg) (user w)")
  let ?w1 = "w\<lparr>calls := calls w @ [InitCall i (init_args cfg) r0], user := u0\<rparr>"
  show ?case
  proof (cases r0)
    case None
    with Cons.prems I have rec: "init_servers cfg (Suc i) rest ?w1 = (r, w')" by simp
    from Cons.IH[OF rec] have c: "cancelled w' = cancelled w" by simp
    show ?thesis
    proof (cases r)
      case N2: None
      with Cons.IH[OF rec] None show ?thesis
        by (simp add: upt_shift del: upt_Suc)
    next
      case (Some err)
      with Cons.IH[OF rec] obtain k where k: "k < length rest"
        "calls w' = calls ?w1 @ map (\<lambda>j. InitCall j (init_args cfg) None) [Suc i..<Suc i + k]
                        @ [InitCall (Suc i + k) (init_args cfg) (Some err)]"
        "\<exists>u. fst (Init (rest ! k) (init_args cfg) u) = Some err" by auto
      have "Suc k < length (srv # rest)" using k by simp
      moreover have "calls w' = calls w @ map (\<lambda>j. InitCall j (init_args cfg) None) [i..<i + Suc k]
                        @ [InitCall (i + Suc k) (init_args cfg) (Some err)]"
        using k(2) None by (simp add: upt_shift del: upt_Suc)
      moreover have "\<exists>u. fst (Init ((srv # rest) ! Suc k) (init_args cfg) u) = Some err" using k(3) by simp
      ultimately have "\<exists>k<length (srv # rest).
           calls w' = calls w @ map (\<lambda>j. InitCall j (init_args cfg) None) [i..<i + k]
                        @ [InitCall (i + k) (init_args cfg) (Some err)]
           \<and> (\<exists>u. fst (Init ((srv # rest) ! k) (init_args cfg) u) = Some err)" by blast
      then show ?thesis using Some c by simp
    qed
  next
    case (Some err)
    with Cons.prems I have "r = Some err" "w' = ?w1" by auto
    moreover have "fst (Init ((srv # rest) ! 0) (init_args cfg) (user w)) = Some err" using I Some by simp
    ultimately show ?thesis using Some by (auto intro!: exI[of _ 0])
  qed
qed

lemma run_hooks_log:
  "run_hooks ph c i hs w = (r, w') \<Longrightarrow>
     cancelled w' = cancelled w \<and>
     (case r of
        None \<Rightarrow> calls w' = calls w @ map (\<lambda>j. HookCall ph j None) [i..<i + length hs]
      | Some err \<Rightarrow> (\<exists>k<length hs.
           calls w' = calls w @ map (\<lambda>j. HookCall ph j None) [i..<i + k]
                        @ [HookCall ph (i + k) (Some err)]))"
proof (induction hs arbitrary: i w)
  case Nil
  then show ?case by simp
next
  case (Cons fn rest)
  obtain r0 u0 where I: "fn (ctx_done (cancelled w) c) (user w) = (r0, u0)"
    by (cases "fn (ctx_done (cancelled w) c) (user w)")
  let ?w1 = "w\<lparr>calls := calls w @ [HookCall ph i r0], user := u0\<rparr>"
  show ?case
  proof (cases r0)
    case None
    with Cons.prems I have rec: "run_hooks ph c (Suc i) rest ?w1 = (r, w')" by simp
    from Cons.IH[OF rec] have c: "cancelled w' = cancelled w" by simp
    show ?thesis
    proof (cases r)
      case N2: None
      with Cons.IH[OF rec] None show ?thesis
        by (simp add: upt_shift del: upt_Suc)
    next
      case (Some err)
      with Cons.IH[OF rec] obtain k where k: "k < length rest"
        "calls w' = calls ?w1 @ map (\<lambda>j. HookCall ph j None) [Suc i..<Suc i + k]
                        @ [HookCall ph (Suc i + k) (Some err)]" by auto
      have "Suc k < length (fn # rest)" using k by simp
      moreover have "calls w' = calls w @ map (\<lambda>j. HookCall ph j None) [i..<i + Suc k]
                        @ [HookCall ph (i + Suc k) (Some err)]"
        using k(2) None by (simp add: upt_shift del: upt_Suc)
      ultimately have "\<exists>k<length (fn # rest).
           calls w' = calls w @ map (\<lambda>j. HookCall ph j None) [i..<i + k]
                        @ [HookCall ph (i + k) (Some err)]" by blast
      then show ?thesis using Some c by simp
    qed
  next
    case (Some err)
    with Cons.prems I have "r = Some err" "w' = ?w1" by auto
    then show ?thesis using Some by (auto intro!: exI[of _ 0])
  qed
qed

lemma launch_servers_log:
  "cancelled (launch_servers i srvs w) = cancelled w \<and> user (launch_servers i srvs w) = user w \<and>
   calls (launch_servers i srvs w) = calls w @ concat (map (\<lambda>j. [GoStopWaiter j, GoStart j]) [i..<i + length srvs])"
  by (induction srvs arbitrary: i w) (simp_all add: upt_shift del: upt_Suc)

lemma run_hooks_all_ok:
  "run_hooks ph c i hs w = (None, w') \<Longrightarrow> \<forall>k<length hs. \<exists>d u. fst ((hs ! k) d u) = None"
proof (induction hs arbitrary: i w)
  case Nil
  then show ?case by simp
next
  case (Cons fn rest)
  obtain r0 u0 where I: "fn (ctx_done (cancelled w) c) (user w) = (r0, u0)"
    by (cases "fn (ctx_done (cancelled w) c) (user w)")
  with Cons.prems have r0: "r0 = None" by (cases r0) auto
  with Cons.prems I have "run_hooks ph c (Suc i) rest (w\<lparr>calls := calls w @ [HookCall ph i r0], user := u0\<rparr>) = (None, w')"
    by simp
  from Cons.IH[OF this] have rest: "\<forall>k<length rest. \<exists>d u. fst ((rest ! k) d u) = None" .
  have "fst (fn (ctx_done (cancelled w) c) (user w)) = None" using I r0 by simp
  then have hd: "\<exists>d u. fst (fn d u) = None" by blast
  show ?case
  proof (intro allI impI)
    fix k assume "k < length (fn # rest)"
    then show "\<exists>d u. fst (((fn # rest) ! k) d u) = None"
      using hd rest by (cases k) auto
  qed
qed

lemma Run_cases:
  "Run a egWait w = (r, w') \<Longrightarrow>
    (\<exists>k<length (beforeStart (app_opts a)). \<exists>err. r = Some err \<and>
        calls w' = calls w @ map (\<lambda>j. HookCall PBeforeStart j None) [0..<k] @ [HookCall PBeforeStart k (Some err)])
    \<or> ((\<forall>k<length (beforeStart (app_opts a)). \<exists>d u. fst ((beforeStart (app_opts a) ! k) d u) = None) \<and>
        (\<exists>rest. calls w' = calls w @ map (\<lambda>j. HookCall PBeforeStart j None) [0..<length (beforeStart (app_opts a))]
            @ concat (map (\<lambda>j. [GoStopWaiter j, GoStart j]) [0..<length (servers (app_opts a))]) @ rest
          \<and> (\<forall>k e. HookCall PBeforeStart k e \<notin> set rest)))"
proof -
  assume R: "Run a egWait w = (r, w')"
  let ?c = "NewContext (app_ctx a) a"
  obtain r1 w1 where B: "run_hooks PBeforeStart ?c 0 (beforeStart (app_opts a)) w = (r1, w1)"
    by (cases "run_hooks PBeforeStart ?c 0 (beforeStart (app_opts a)) w")
  note LB = run_hooks_log[OF B]
  show ?thesis
  proof (cases r1)
    case (Some err)
    with R B have "r = Some err" "w' = w1" by (auto simp: Run_def Let_def)
    with LB Some show ?thesis by auto
  next
    case None
    let ?w2 = "launch_servers 0 (servers (app_opts a)) w1"
    obtain r3 w3 where A: "run_hooks PAfterStart ?c 0 (afterStart (app_opts a)) ?w2 = (r3, w3)"
      by (cases "run_hooks PAfterStart ?c 0 (afterStart (app_opts a)) ?w2")
    note LA = run_hooks_log[OF A]
    note LL = launch_servers_log[of 0 "servers (app_opts a)" w1]
    have ok: "\<forall>k<length (beforeStart (app_opts a)). \<exists>d u. fst ((beforeStart (app_opts a) ! k) d u) = None"
      using run_hooks_all_ok B None by blast
    have c1: "calls w1 = calls w @ map (\<lambda>j. HookCall PBeforeStart j None) [0..<length (beforeStart (app_opts a))]"
      using LB None by simp
    have "\<exists>rest. calls w' = calls ?w2 @ rest \<and> (\<forall>k e. HookCall PBeforeStart k e \<notin> set rest)"
    proof (cases r3)
      case (Some err)
      with R B A None have "w' = w3" by (auto simp: Run_def Let_def)
      with LA Some show ?thesis by auto
    next
      case N3: None
      obtain r4 u4 where E: "egWait (user w3) = (r4, u4)" by (cases "egWait (user w3)")
      with R B A None N3 have "w' = w3\<lparr>calls := calls w3 @ [GoSignalWatcher], user := u4\<rparr>"
        by (auto simp: Run_def Let_def)
      with LA N3 show ?thesis by auto
    qed
    then show ?thesis using ok c1 LL by auto
  qed
qed

lemma ctx_done_insert: "ctx_done C k \<Longrightarrow> ctx_done (insert k C) c = ctx_done C c"
  by (induction c) auto

lemma New_three_servers:
  "New three_servers world0 = (Inl (Errorf ''listen: address in use''), after_failed_init)"
  by (simp add: New_def apply_opts_def default_options_def ID_def Name_def Version_def WithContext_def
      WithServer_def srv_ok_def srv_fail_def world0_def init_args_def three_servers_def after_failed_init_def)

lemma Run_failing_start_app:
  "Run failing_start_app (\<lambda>u. (None, u)) world0 = (Some (Errorf ''migration failed''), after_failed_hook)"
  by (simp add: Run_def failing_start_app_def apply_opts_def default_options_def WithServer_def BeforeStart_def
        hook_ok_def hook_fail_def world0_def after_failed_hook_def NewContext_def)

lemma hooked_app_New:
  "New [BeforeStop count_hook, AfterStop count_hook] world0 = (Inr hooked_app, world0)"
  by (simp add: New_def hooked_app_def apply_opts_def default_options_def BeforeStop_def AfterStop_def)

lemma stopped_once_eq: "Stop hooked_app world0 = (None, stopped_once)"
  by (simp add: Stop_def hooked_app_def apply_opts_def default_options_def BeforeStop_def AfterStop_def
        world0_def stopped_once_def count_hook_def NewContext_def)

subsection \<open>C9: \<open>New\<close> initialises the servers in list order\<close>

text \<open>
  Claim C9.  \<open>New\<close> calls \<open>Init\<close> of the servers in list order, each with the
  configured id, name and version.  When the call returns an application, every server
  was initialised and returned nil, the options are the configured ones, and the
  application's root context is \<open>WithCancel\<close> of the supplied context (so it is done
  whenever that one is).  When it returns an error, the calls made are exactly those of
  the servers up to some position \<open>k\<close>: the first \<open>k\<close> returned nil, server \<open>k\<close>
  returned this error, no later server was initialised, and no application is returned.
\<close>

theorem New_inits_servers_in_order:
  "New opts w = (res, w') \<Longrightarrow> cfg = apply_opts default_options opts \<Longrightarrow>
     args = [transport_ID (opt_id cfg), transport_Name (opt_name cfg), transport_Version (opt_version cfg)] \<Longrightarrow>
     (case res of
        Inr a \<Rightarrow>
          calls w' = calls w @ map (\<lambda>j. InitCall j args None) [0..<length (servers cfg)]
          \<and> app_opts a = cfg \<and> app_ctx a = WithCancel (opt_ctx cfg) \<and> app_cancel a = Some (app_ctx a)
          \<and> (\<forall>C. ctx_done C (opt_ctx cfg) \<longrightarrow> ctx_done C (app_ctx a))
      | Inl err \<Rightarrow>
          (\<exists>k<length (servers cfg).
             calls w' = calls w @ map (\<lambda>j. InitCall j args None) [0..<k] @ [InitCall k args (Some err)]
             \<and> (\<exists>u. fst (Init (servers cfg ! k) args u) = Some err)))"
proof -
  assume N: "New opts w = (res, w')" and cfg: "cfg = apply_opts default_options opts"
    and args: "args = [transport_ID (opt_id cfg), transport_Name (opt_name cfg), transport_Version (opt_version cfg)]"
  have ia: "init_args cfg = args" by (simp add: init_args_def args)
  obtain r w1 where I: "init_servers cfg 0 (servers cfg) w = (r, w1)"
    by (cases "init_servers cfg 0 (servers cfg) w")
  note L = init_servers_log[OF I, unfolded ia]
  show ?thesis
  proof (cases r)
    case None
    with N I cfg have "res = Inr \<lparr>app_opts = cfg, app_ctx = WithCancel (opt_ctx cfg),
                app_cancel = Some (WithCancel (opt_ctx cfg))\<rparr>" "w' = w1"
      by (auto simp: New_def Let_def)
    with L None show ?thesis by simp
  next
    case (Some err)
    with N I cfg have "res = Inl err" "w' = w1" by (auto simp: New_def Let_def)
    with L Some show ?thesis by simp
  qed
qed

text \<open>
  Witness for C9: three servers of which the second fails to initialise.
\<close>

theorem New_inits_servers_in_order_witness:
  "New three_servers world0 = (Inl (Errorf ''listen: address in use''), after_failed_init) \<and>
   (\<exists>k<length (servers (apply_opts default_options three_servers)).
      calls after_failed_init =
        calls world0 @
        map (\<lambda>j. InitCall j [transport_ID ''i1'', transport_Name ''svc'', transport_Version ''v1''] None) [0..<k] @
        [InitCall k [transport_ID ''i1'', transport_Name ''svc'', transport_Version ''v1'']
           (Some (Errorf ''listen: address in use''))])"
proof -
  have o: "opt_id (apply_opts default_options three_servers) = ''i1''"
          "opt_name (apply_opts default_options three_servers) = ''svc''"
          "opt_version (apply_opts default_options three_servers) = ''v1''"
    by (simp_all add: apply_opts_def default_options_def three_servers_def ID_def Name_def Version_def
          WithContext_def WithServer_def)
  from New_inits_servers_in_order[OF New_three_servers refl refl]
  show ?thesis unfolding o using New_three_servers by auto
qed

subsection \<open>C3: a failing \<open>beforeStart\<close> hook ends \<open>Run\<close> before any server is started\<close>

text \<open>
  Claim C3.  Let \<open>new\<close> be the calls \<open>Run\<close> makes.  If a \<open>beforeStart\<close> hook at
  position \<open>k\<close> returned the error \<open>err\<close>, then \<open>Run\<close> returns \<open>err\<close>, and its calls
  are exactly the hooks \<open>0..k-1\<close> in order (each returning nil) followed by hook \<open>k\<close>:
  no task that calls \<open>Start\<close> on a server was launched.  And when the list holds a hook
  that returns an error whenever it is called, some hook call of the run did return one.
\<close>

theorem Run_beforeStart_error:
  "Run a egWait w = (r, w') \<Longrightarrow> new = drop (length (calls w)) (calls w') \<Longrightarrow>
     (HookCall PBeforeStart k (Some err) \<in> set new \<longrightarrow>
        r = Some err \<and> k < length (beforeStart (app_opts a)) \<and>
        new = map (\<lambda>j. HookCall PBeforeStart j None) [0..<k] @ [HookCall PBeforeStart k (Some err)] \<and>
        (\<forall>i. GoStart i \<notin> set new))
   \<and> ((\<exists>j<length (beforeStart (app_opts a)). \<forall>d u. fst ((beforeStart (app_opts a) ! j) d u) \<noteq> None) \<longrightarrow>
        (\<exists>k err. HookCall PBeforeStart k (Some err) \<in> set new))"
proof -
  assume R: "Run a egWait w = (r, w')" and new: "new = drop (length (calls w)) (calls w')"
  from Run_cases[OF R] show ?thesis
  proof (elim disjE exE conjE)
    fix k' err'
    assume k': "k' < length (beforeStart (app_opts a))" and r: "r = Some err'"
      and c: "calls w' = calls w @ map (\<lambda>j. HookCall PBeforeStart j None) [0..<k'] @ [HookCall PBeforeStart k' (Some err')]"
    have n: "new = map (\<lambda>j. HookCall PBeforeStart j None) [0..<k'] @ [HookCall PBeforeStart k' (Some err')]"
      using new c by simp
    show ?thesis using n r k' by auto
  next
    fix rest
    assume ok: "\<forall>k<length (beforeStart (app_opts a)). \<exists>d u. fst ((beforeStart (app_opts a) ! k) d u) = None"
      and c: "calls w' = calls w @ map (\<lambda>j. HookCall PBeforeStart j None) [0..<length (beforeStart (app_opts a))]
            @ concat (map (\<lambda>j. [GoStopWaiter j, GoStart j]) [0..<length (servers (app_opts a))]) @ rest"
      and rest: "\<forall>k e. HookCall PBeforeStart k e \<notin> set rest"
    have n: "new = map (\<lambda>j. HookCall PBeforeStart j None) [0..<length (beforeStart (app_opts a))]
            @ concat (map (\<lambda>j. [GoStopWaiter j, GoStart j]) [0..<length (servers (app_opts a))]) @ rest"
      using new c by simp
    have "HookCall PBeforeStart k (Some err) \<notin> set new" using n rest by auto
    moreover have "\<not> (\<exists>j<length (beforeStart (app_opts a)). \<forall>d u. fst ((beforeStart (app_opts a) ! j) d u) \<noteq> None)"
      using ok by blast
    ultimately show ?thesis by blast
  qed
qed

text \<open>
  Witness for C3: hooks ok, failing, ok and one server; the second hook's error is
  returned and nothing is launched.
\<close>

theorem Run_beforeStart_error_witness:
  "Run failing_start_app (\<lambda>u. (None, u)) world0 = (Some (Errorf ''migration failed''), after_failed_hook) \<and>
   HookCall PBeforeStart 1 (Some (Errorf ''migration failed'')) \<in> set (drop (length (calls world0)) (calls after_failed_hook)) \<and>
   drop (length (calls world0)) (calls after_failed_hook) =
     map (\<lambda>j. HookCall PBeforeStart j None) [0..<1] @ [HookCall PBeforeStart 1 (Some (Errorf ''migration failed''))] \<and>
   (\<forall>i. GoStart i \<notin> set (drop (length (calls world0)) (calls after_failed_hook)))"
proof -
  have m: "HookCall PBeforeStart 1 (Some (Errorf ''migration failed'')) \<in> set (drop (length (calls world0)) (calls after_failed_hook))"
    by (simp add: world0_def after_failed_hook_def)
  from Run_beforeStart_error[OF Run_failing_start_app refl, of 1 "Errorf ''migration failed''"] m Run_failing_start_app
  show ?thesis by blast
qed

subsection \<open>C2: what a second \<open>Stop\<close> does\<close>

text \<open>
  Claim C2 says that a second \<open>Stop\<close>, after the root context is cancelled, is a
  no-op that does not run the stop hooks again.  \<open>Stop\<close> has no such guard.  With one
  \<open>beforeStop\<close> and one \<open>afterStop\<close> hook, each counting its calls, the second
  \<open>Stop\<close> runs both again: four hook calls in the log and a count of four.
\<close>

theorem Stop_twice_counterexample:
  "Stop hooked_app world0 = (None, stopped_once) \<and>
   ctx_done (cancelled stopped_once) (app_ctx hooked_app) \<and>
   Stop hooked_app stopped_once =
     (None, \<lparr>cancelled = {WithCancel Background},
             calls = [HookCall PBeforeStop 0 None, HookCall PAfterStop 0 None,
                      HookCall PBeforeStop 0 None, HookCall PAfterStop 0 None], user = 4\<rparr>) \<and>
   Stop hooked_app stopped_once \<noteq> (None, stopped_once)"
  by (simp add: Stop_def hooked_app_def apply_opts_def default_options_def BeforeStop_def AfterStop_def
        world0_def stopped_once_def count_hook_def NewContext_def)

text \<open>
  Claim C2 as amended.  When the root context is already cancelled, \<open>Stop\<close> changes
  no context's cancellation state, but it runs the \<open>beforeStop\<close> hooks and then the
  \<open>afterStop\<close> hooks again, from the first hook of each list and in order: it returns
  nil exactly after calling every hook of both lists, and otherwise returns the first hook
  error, having called nothing after that hook.  It is a no-op only when both lists are
  empty.
\<close>

theorem Stop_after_cancel_runs_hooks_again:
  "ctx_done (cancelled w) (app_ctx a) \<Longrightarrow> app_cancel a = Some (app_ctx a) \<Longrightarrow>
   Stop a w = (r, w') \<Longrightarrow> new = drop (length (calls w)) (calls w') \<Longrightarrow>
   bs = beforeStop (app_opts a) \<Longrightarrow> as = afterStop (app_opts a) \<Longrightarrow>
     (\<forall>c. ctx_done (cancelled w') c = ctx_done (cancelled w) c)
   \<and> (case r of
        None \<Rightarrow> new = map (\<lambda>j. HookCall PBeforeStop j None) [0..<length bs]
                      @ map (\<lambda>j. HookCall PAfterStop j None) [0..<length as]
      | Some err \<Rightarrow>
          (\<exists>k<length bs. new = map (\<lambda>j. HookCall PBeforeStop j None) [0..<k]
                                 @ [HookCall PBeforeStop k (Some err)])
        \<or> (\<exists>k<length as. new = map (\<lambda>j. HookCall PBeforeStop j None) [0..<length bs]
                                 @ map (\<lambda>j. HookCall PAfterStop j None) [0..<k]
                                 @ [HookCall PAfterStop k (Some err)]))
   \<and> (bs = [] \<and> as = [] \<longrightarrow> r = None \<and> new = [] \<and> user w' = user w)"
proof -
  assume d: "ctx_done (cancelled w) (app_ctx a)" and k: "app_cancel a = Some (app_ctx a)"
    and S: "Stop a w = (r, w')" and new: "new = drop (length (calls w)) (calls w')"
    and bs: "bs = beforeStop (app_opts a)" and as: "as = afterStop (app_opts a)"
  let ?c = "NewContext (app_ctx a) a"
  obtain r1 w1 where B: "run_hooks PBeforeStop ?c 0 bs w = (r1, w1)"
    by (cases "run_hooks PBeforeStop ?c 0 bs w")
  note LB = run_hooks_log[OF B]
  have e: "bs = [] \<and> as = [] \<longrightarrow> r = None \<and> new = [] \<and> user w' = user w"
    using S new bs as k by (auto simp: Stop_def)
  show ?thesis
  proof (cases r1)
    case (Some err)
    with S B bs have "r = Some err" "w' = w1" by (auto simp: Stop_def Let_def)
    with LB Some new e show ?thesis by auto
  next
    case None
    let ?w2 = "w1\<lparr>cancelled := insert (app_ctx a) (cancelled w1)\<rparr>"
    from S B None bs as k have A: "run_hooks PAfterStop ?c 0 as ?w2 = (r, w')"
      by (auto simp: Stop_def Let_def)
    note LA = run_hooks_log[OF A]
    have c1: "calls w1 = calls w @ map (\<lambda>j. HookCall PBeforeStop j None) [0..<length bs]"
      and k1: "cancelled w1 = cancelled w" using LB None by simp_all
    have "\<forall>c. ctx_done (cancelled w') c = ctx_done (cancelled w) c"
      using LA k1 ctx_done_insert[OF d] by simp
    moreover have "(case r of
        None \<Rightarrow> new = map (\<lambda>j. HookCall PBeforeStop j None) [0..<length bs]
                      @ map (\<lambda>j. HookCall PAfterStop j None) [0..<length as]
      | Some err \<Rightarrow>
          (\<exists>k<length bs. new = map (\<lambda>j. HookCall PBeforeStop j None) [0..<k]
                                 @ [HookCall PBeforeStop k (Some err)])
        \<or> (\<exists>k<length as. new = map (\<lambda>j. HookCall PBeforeStop j None) [0..<length bs]
                                 @ map (\<lambda>j. HookCall PAfterStop j None) [0..<k]
                                 @ [HookCall PAfterStop k (Some err)]))"
      using LA c1 new by (cases r) auto
    ultimately show ?thesis using e by blast
  qed
qed

text \<open>
  Witness for the amended C2: the second \<open>Stop\<close> of the application above.
\<close>

theorem Stop_after_cancel_runs_hooks_again_witness:
  "ctx_done (cancelled stopped_once) (app_ctx hooked_app) \<and>
   app_cancel hooked_app = Some (app_ctx hooked_app) \<and>
   (\<forall>c. ctx_done (cancelled (snd (Stop hooked_app stopped_once))) c = ctx_done (cancelled stopped_once) c) \<and>
   drop (length (calls stopped_once)) (calls (snd (Stop hooked_app stopped_once))) =
     [HookCall PBeforeStop 0 None, HookCall PAfterStop 0 None]"
proof -
  have d: "ctx_done (cancelled stopped_once) (app_ctx hooked_app)"
    and k: "app_cancel hooked_app = Some (app_ctx hooked_app)"
    by (simp_all add: stopped_once_def hooked_app_def)
  have r: "fst (Stop hooked_app stopped_once) = None"
    by (simp add: Stop_def hooked_app_def apply_opts_def default_options_def BeforeStop_def AfterStop_def
        stopped_once_def count_hook_def NewContext_def)
  have l: "length (beforeStop (app_opts hooked_app)) = 1" "length (afterStop (app_opts hooked_app)) = 1"
    by (simp_all add: hooked_app_def apply_opts_def default_options_def BeforeStop_def AfterStop_def)
  from Stop_after_cancel_runs_hooks_again[OF d k prod.collapse[symmetric] refl refl refl]
  show ?thesis using d k r l by simp
qed

section \<open>Properties of the recovery middleware\<close>




subsection \<open>C4: a panic becomes the error of the recovery handler\<close>




section \<open>Properties of the rate limiter\<close>

lemma go_div_nonneg: "0 \<le> a \<Longrightarrow> 0 < b \<Longrightarrow> go_div a b = a div b"
  by (cases "a = 0") (simp_all add: go_div_def sgn_if)

lemma bucket_ten_per_second: "NewBucketWithQuantum 100000000 10 1 0 = Some ten_per_second"
  by (simp add: NewBucketWithQuantum_def ten_per_second_def)

lemma Allow_one_at_zero:
  "0 < k \<Longrightarrow> k \<le> 10 \<Longrightarrow> Allow (ten_per_second\<lparr>availableTokens := k\<rparr>) 0 1
      = (True, ten_per_second\<lparr>availableTokens := k - 1\<rparr>)"
  by (auto simp: Allow_def TakeAvailable_def adjustavailableTokens_def currentTick_def go_div_def
        ten_per_second_def Let_def)

lemma ten_calls_admitted: "Allow_each ten_per_second (replicate 10 (0, 1)) = (replicate 10 True, drained)"
proof -
  have r: "replicate 10 x = [x,x,x,x,x,x,x,x,x,x]" for x :: 'a
    by (simp add: numeral_eq_Suc)
  have t: "ten_per_second = ten_per_second\<lparr>availableTokens := 10\<rparr>" by (simp add: ten_per_second_def)
  show ?thesis unfolding r drained_def
    by (subst t) (simp add: Allow_one_at_zero)
qed

lemma eleventh_call_refused: "Allow drained 0 1 = (False, drained)"
  by (simp add: Allow_def TakeAvailable_def adjustavailableTokens_def currentTick_def go_div_def
        ten_per_second_def drained_def Let_def)

lemma admitted_after_a_second: "Allow drained 1000000000 1 =
    (True, ten_per_second\<lparr>availableTokens := 9, latestTick := 10\<rparr>)"
  by (simp add: Allow_def TakeAvailable_def adjustavailableTokens_def currentTick_def go_div_def
        ten_per_second_def drained_def Let_def)

lemma ratelimit_Server_reject:
  "cfg = apply_opts ratelimit_defaults opts \<Longrightarrow> \<not> rl_disabled cfg \<Longrightarrow> \<not> waitIfFull cfg \<Longrightarrow>
   tb = adjustavailableTokens (bucket w) (currentTick (bucket w) (now w)) \<Longrightarrow>
   availableTokens tb < 1 \<Longrightarrow>
   ratelimit_Server opts handler ctx req w =
     (Return NilValue (Some ErrLimitExceed), w\<lparr>bucket := tb, klog := klog w @ [limit_warning ctx]\<rparr>)"
  by (simp add: ratelimit_Server_def Let_def bucket_TakeAvailable_def TakeAvailable_def)

lemma ratelimit_Server_admit:
  "cfg = apply_opts ratelimit_defaults opts \<Longrightarrow> \<not> rl_disabled cfg \<Longrightarrow> \<not> waitIfFull cfg \<Longrightarrow>
   tb = adjustavailableTokens (bucket w) (currentTick (bucket w) (now w)) \<Longrightarrow>
   1 \<le> availableTokens tb \<Longrightarrow>
   ratelimit_Server opts handler ctx req w =
     handler ctx req (w\<lparr>bucket := tb\<lparr>availableTokens := availableTokens tb - 1\<rparr>\<rparr>)"
  by (simp add: ratelimit_Server_def Let_def bucket_TakeAvailable_def TakeAvailable_def)

lemma Allow_admits_iff:
  "fst (Allow tb t n) \<longleftrightarrow> 0 < n \<and> 0 < availableTokens (adjustavailableTokens tb (currentTick tb t))"
  by (auto simp: Allow_def TakeAvailable_def Let_def split: prod.splits)

lemma Allow_takes:
  "0 < n \<Longrightarrow> tb1 = adjustavailableTokens tb (currentTick tb t) \<Longrightarrow> 0 < availableTokens tb1 \<Longrightarrow>
     Allow tb t n = (True, tb1\<lparr>availableTokens := availableTokens tb1 - min n (availableTokens tb1)\<rparr>)"
  by (auto simp: Allow_def TakeAvailable_def Let_def min_def)

lemma Take_drained: "Take drained 50 1 = (99999950, drained\<lparr>availableTokens := - 1\<rparr>)"
  by (simp add: Take_def drained_def ten_per_second_def adjustavailableTokens_def currentTick_def
        go_div_def Let_def)

lemma ratelimit_Server_blocking:
  "cfg = apply_opts ratelimit_defaults opts \<Longrightarrow> \<not> rl_disabled cfg \<Longrightarrow> waitIfFull cfg \<Longrightarrow>
   ratelimit_Server opts handler ctx req w = handler ctx req (bucket_Wait 1 w)"
  by (simp add: ratelimit_Server_def Let_def)

lemma Wait_cancelled_before: "ctx_Err ctx t = Some e \<Longrightarrow> Wait ctx limiter t n = (Some e, limiter, t)"
  by (simp add: Wait_def)

subsection \<open>C5: rejection without tokens\<close>

text \<open>
  Claim C5.  In non-blocking mode the middleware asks for one token.  When the bucket,
  brought up to date at the time of the call, holds less than one, the call returns a
  nil reply and the error \<open>rate limit exceeded\<close>; the state it leaves is the state
  before the call with the updated bucket and one warning line, whatever the handler is:
  the handler is not invoked.  A bucket of capacity 10 filled with one token every 100
  milliseconds (10 per second) admits ten \<open>Allow(1)\<close> at its creation time, refuses
  the eleventh, and admits again one second later.
\<close>

theorem ratelimit_rejects_without_tokens:
  "(\<forall>opts cfg tb (w :: 'u Proc) handler ctx req.
      cfg = apply_opts ratelimit_defaults opts \<and> \<not> rl_disabled cfg \<and> \<not> waitIfFull cfg \<and>
      tb = adjustavailableTokens (bucket w) (currentTick (bucket w) (now w)) \<and>
      availableTokens tb < 1
      \<longrightarrow> ratelimit_Server opts handler ctx req w =
            (Return NilValue (Some ErrLimitExceed),
             w\<lparr>bucket := tb, klog := klog w @ [limit_warning ctx]\<rparr>))
   \<and> Error ErrLimitExceed = ''rate limit exceeded''
   \<and> NewBucketWithQuantum 100000000 10 1 0 = Some ten_per_second
   \<and> Allow_each ten_per_second (replicate 10 (0, 1)) = (replicate 10 True, drained)
   \<and> Allow drained 0 1 = (False, drained)
   \<and> fst (Allow drained 1000000000 1) = True"
proof -
  have "\<forall>opts cfg tb (w :: 'u Proc) handler ctx req.
      cfg = apply_opts ratelimit_defaults opts \<and> \<not> rl_disabled cfg \<and> \<not> waitIfFull cfg \<and>
      tb = adjustavailableTokens (bucket w) (currentTick (bucket w) (now w)) \<and>
      availableTokens tb < 1
      \<longrightarrow> ratelimit_Server opts handler ctx req w =
            (Return NilValue (Some ErrLimitExceed),
             w\<lparr>bucket := tb, klog := klog w @ [limit_warning ctx]\<rparr>)"
    using ratelimit_Server_reject by blast
  then show ?thesis
    using bucket_ten_per_second ten_calls_admitted eleventh_call_refused admitted_after_a_second by simp
qed

text \<open>
  Witness for C5: the eleventh call through the middleware, on the drained bucket.
\<close>

theorem ratelimit_rejects_without_tokens_witness:
  "\<not> rl_disabled (apply_opts ratelimit_defaults [WithCapacity 10, WithRate 10]) \<and>
   \<not> waitIfFull (apply_opts ratelimit_defaults [WithCapacity 10, WithRate 10]) \<and>
   availableTokens (adjustavailableTokens drained (currentTick drained 0)) < 1 \<and>
   ratelimit_Server [WithCapacity 10, WithRate 10] echo bare_ctx (Str ''ping'') (proc0\<lparr>bucket := drained\<rparr>) =
     (Return NilValue (Some ErrLimitExceed),
      proc0\<lparr>bucket := drained, klog := [(LevelWarn, ''[] server  rate limit exceeded'')]\<rparr>)"
proof -
  let ?opts = "[WithCapacity 10, WithRate 10]"
  let ?w = "proc0\<lparr>bucket := drained\<rparr>"
  have a: "\<not> rl_disabled (apply_opts ratelimit_defaults ?opts)"
    and b: "\<not> waitIfFull (apply_opts ratelimit_defaults ?opts)"
    by (simp_all add: apply_opts_def ratelimit_defaults_def WithCapacity_def WithRate_def)
  have t: "drained = adjustavailableTokens (bucket ?w) (currentTick (bucket ?w) (now ?w))"
    by (simp add: proc0_def drained_def ten_per_second_def adjustavailableTokens_def currentTick_def
          go_div_def Let_def)
  have l: "availableTokens drained < 1" by (simp add: drained_def)
  have lw: "limit_warning bare_ctx = (LevelWarn, ''[] server  rate limit exceeded'')"
    by (simp add: limit_warning_def kind_operation_def bare_ctx_def)
  have k: "klog ?w = []" by (simp add: proc0_def)
  from ratelimit_rejects_without_tokens[THEN conjunct1, rule_format,
         of "apply_opts ratelimit_defaults ?opts" ?opts drained ?w echo bare_ctx "Str ''ping''"] a b l t
  have "ratelimit_Server ?opts echo bare_ctx (Str ''ping'') ?w =
          (Return NilValue (Some ErrLimitExceed),
           ?w\<lparr>bucket := drained, klog := klog ?w @ [limit_warning bare_ctx]\<rparr>)"
    by blast
  with a b l t show ?thesis by (simp add: lw k proc0_def)
qed

subsection \<open>C6: the blocking wait and the caller's context\<close>

text \<open>
  Claim C6 says that a blocking wait ends with a cancellation error when the caller's
  context is cancelled first.  In blocking mode the middleware calls \<open>bucket.Wait(1)\<close>
  and never looks at the context: with an empty bucket and a context that is already
  cancelled, the call sleeps until the next token (from 50 ns to 100 ms) and then runs the
  handler.  The helper \<open>Wait\<close> checks the context once, before it blocks: a context
  cancelled at 60 ns, while the helper sleeps, does not end the wait, and the helper
  returns nil at 100 ms.
\<close>

theorem blocking_wait_ignores_cancellation:
  "ctx_Err cancelled_ctx 50 = Some Canceled \<and>
   ratelimit_Server [WithWaitIfFull True] echo cancelled_ctx (Str ''ping'') (proc0\<lparr>now := 50, bucket := drained\<rparr>) =
     (Return (Str ''ping'') None,
      proc0\<lparr>now := 100000000, bucket := drained\<lparr>availableTokens := - 1\<rparr>, hstate := 1\<rparr>) \<and>
   ctx_Err cancelling_ctx 50 = None \<and> ctx_Err cancelling_ctx 60 = Some Canceled \<and>
   Wait cancelling_ctx drained 50 1 = (None, drained\<lparr>availableTokens := - 1\<rparr>, 100000000)"
proof -
  have c: "apply_opts ratelimit_defaults [WithWaitIfFull True] = ratelimit_defaults\<lparr>waitIfFull := True\<rparr>"
    by (simp add: apply_opts_def WithWaitIfFull_def)
  have w: "bucket_Wait 1 (proc0\<lparr>now := 50, bucket := drained\<rparr>) =
             proc0\<lparr>now := 100000000, bucket := drained\<lparr>availableTokens := - 1\<rparr>\<rparr>"
    by (simp add: bucket_Wait_def proc0_def Take_drained)
  have h0: "hstate proc0 = 0" by (simp add: proc0_def)
  have 1: "ratelimit_Server [WithWaitIfFull True] echo cancelled_ctx (Str ''ping'') (proc0\<lparr>now := 50, bucket := drained\<rparr>) =
     (Return (Str ''ping'') None,
      proc0\<lparr>now := 100000000, bucket := drained\<lparr>availableTokens := - 1\<rparr>, hstate := 1\<rparr>)"
    by (simp add: ratelimit_Server_blocking[OF c[symmetric]] ratelimit_defaults_def w echo_def h0)
  have 2: "ctx_Err cancelled_ctx 50 = Some Canceled" "ctx_Err cancelling_ctx 50 = None"
    "ctx_Err cancelling_ctx 60 = Some Canceled"
    by (simp_all add: ctx_Err_def cancelled_ctx_def cancelling_ctx_def bare_ctx_def)
  have 3: "Wait cancelling_ctx drained 50 1 = (None, drained\<lparr>availableTokens := - 1\<rparr>, 100000000)"
    by (simp add: Wait_def 2 Take_drained)
  from 1 2 3 show ?thesis by simp
qed

subsection \<open>C7: \<open>Allow\<close> with fewer tokens than asked for\<close>

text \<open>
  Claim C7 says that \<open>Allow(n)\<close> never admits when \<open>n\<close> exceeds the available
  tokens.  \<open>Allow\<close> admits whenever \<open>TakeAvailable\<close> removed at least one token: asked
  for five tokens of a bucket that holds three, it removes the three and returns true.
\<close>

theorem Allow_admits_beyond_available:
  "Allow (ten_per_second\<lparr>availableTokens := 3\<rparr>) 0 5 = (True, ten_per_second\<lparr>availableTokens := 0\<rparr>)"
  by (simp add: Allow_def TakeAvailable_def adjustavailableTokens_def currentTick_def go_div_def
        ten_per_second_def Let_def)

section \<open>Properties of the circuit breaker middleware\<close>

lemma report_Nil: "report cfg nm [] w = w"
  by (simp add: report_def)

lemma registry_report: "registry (report cfg nm changes w) = registry w"
  by (simp add: report_def split: prod.splits)

lemma now_report: "now (report cfg nm changes w) = now w"
  by (simp add: report_def split: prod.splits)

lemma registry_store: "registry (store cfg key (cb, changes) w) = (registry w)(key \<mapsto> cb)"
  by (simp add: store_def registry_report)

lemma store_same: "registry w key = Some cb \<Longrightarrow> store cfg key (cb, []) w = w"
proof -
  assume "registry w key = Some cb"
  then have "(registry w)(key \<mapsto> cb) = registry w" by (simp add: fun_upd_idem_iff)
  then show ?thesis by (simp add: store_def report_Nil)
qed

lemma circuitbreaker_Server_enabled:
  "cfg = apply_opts circuitbreaker_defaults opts \<Longrightarrow> \<not> cbo_disabled cfg \<Longrightarrow>
   circuitbreaker_Server opts handler ctx req w =
     (case get_or_create cfg (circuitBreakerName cfg ctx) w of
           (cb, w1) \<Rightarrow>
             (case Execute cfg (circuitBreakerName cfg ctx) cb (handler ctx req) w1 of
                (Panic e, w2) \<Rightarrow> (Panic e, w2)
              | (Return result err, w2) \<Rightarrow>
                  if err = Some ErrOpenState
                  then fallbackHandler cfg ctx req (w2\<lparr>klog := klog w2 @ [open_warning ctx]\<rparr>)
                  else (Return result err, w2)))"
  by hypsubst (simp add: circuitbreaker_Server_def Let_def)

lemma beforeRequest_Open:
  "cb_state cb = StateOpen \<Longrightarrow> cb_expiry cb = Some d \<Longrightarrow> t \<le> d \<Longrightarrow>
     beforeRequest cb t = (cb, [], Inl ErrOpenState)"
  by (simp add: beforeRequest_def currentState_def expiry_before_def)

lemma Server_Open_rejects:
  assumes cfg: "cfg = apply_opts circuitbreaker_defaults opts" and en: "\<not> cbo_disabled cfg"
    and reg: "registry w (circuitBreakerName cfg ctx) = Some cb"
    and st: "cb_state cb = StateOpen" and ex: "cb_expiry cb = Some d" and t: "now w \<le> d"
  shows "circuitbreaker_Server opts handler ctx req w =
           fallbackHandler cfg ctx req (w\<lparr>klog := klog w @ [open_warning ctx]\<rparr>)"
  by (simp add: circuitbreaker_Server_enabled[OF cfg en] get_or_create_def reg Execute_def
        beforeRequest_Open[OF st ex t] store_same[OF reg])

lemma afterRequest_trip:
  assumes st: "cb_state cb1 = StateClosed"
    and win: "\<forall>d. cb_expiry cb1 = Some d \<longrightarrow> t \<le> d"
    and trip: "trip (counts_onFailure (cb_counts cb1))"
  shows "afterRequest trip cb1 (cb_generation cb1) False t =
           (toNewGeneration (cb1\<lparr>cb_counts := counts_onFailure (cb_counts cb1), cb_state := StateOpen\<rparr>) t,
            [(StateClosed, StateOpen)])"
proof -
  have cs: "currentState cb1 t = (cb1, [])"
    using st win by (cases "cb_expiry cb1") (auto simp: currentState_def expiry_before_def)
  show ?thesis
    using st trip by (simp add: afterRequest_def cs onFailure_def Let_def setState_def)
qed

lemma beforeRequest_Closed:
  "cb_state cb = StateClosed \<Longrightarrow>
     \<exists>cb1. beforeRequest cb t = (cb1, [], Inr (cb_generation cb1)) \<and> cb_state cb1 = StateClosed \<and>
           cb_timeout cb1 = cb_timeout cb"
  by (auto simp: beforeRequest_def currentState_def toNewGeneration_def)

lemma Server_trips_to:
  assumes cfg: "cfg = apply_opts circuitbreaker_defaults opts" and en: "\<not> cbo_disabled cfg"
    and nm: "nm = circuitBreakerName cfg ctx"
    and reg: "registry w nm = Some cb"
    and st: "cb_state cb = StateClosed"
    and cb1: "cb1 = fst (beforeRequest cb (now w))"
    and h: "handler ctx req (store cfg nm (cb1, []) w) = (out, w3)"
    and f: "\<forall>result err. out = Return result err \<longrightarrow> \<not> isSuccessful cfg err"
    and frame: "registry w3 nm = Some cb1"
    and win: "\<forall>d. cb_expiry cb1 = Some d \<longrightarrow> now w3 \<le> d"
    and trip: "readyToTrip cfg (counts_onFailure (cb_counts cb1))"
    and cbF: "cbF = toNewGeneration (cb1\<lparr>cb_counts := counts_onFailure (cb_counts cb1),
                                        cb_state := StateOpen\<rparr>) (now w3)"
    and w4: "w4 = store cfg nm (cbF, [(StateClosed, StateOpen)]) w3"
  shows "circuitbreaker_Server opts handler ctx req w =
             (case out of
                Panic e \<Rightarrow> (Panic e, w4)
              | Return result err \<Rightarrow>
                  if err = Some ErrOpenState
                  then fallbackHandler cfg ctx req (w4\<lparr>klog := klog w4 @ [open_warning ctx]\<rparr>)
                  else (Return result err, w4))"
proof -
  from beforeRequest_Closed[OF st, of "now w"] cb1
  have br: "beforeRequest cb (now w) = (cb1, [], Inr (cb_generation cb1))"
    and st1: "cb_state cb1 = StateClosed" by auto
  have succ: "(case out of Return result err \<Rightarrow> isSuccessful cfg err | Panic e \<Rightarrow> False) = False"
    using f by (cases out) auto
  have ar: "afterRequest (readyToTrip cfg) cb1 (cb_generation cb1) False (now w3) =
              (cbF, [(StateClosed, StateOpen)])"
    unfolding cbF using st1 win trip by (rule afterRequest_trip)
  have ex: "Execute cfg nm cb (handler ctx req) w = (out, w4)"
    by (simp add: Execute_def br h frame succ Let_def ar w4)
  show ?thesis
    using reg by (simp add: circuitbreaker_Server_enabled[OF cfg en] nm[symmetric] get_or_create_def ex
                      split: Outcome.splits)
qed

lemma Server_trips:
  assumes cfg: "cfg = apply_opts circuitbreaker_defaults opts" and en: "\<not> cbo_disabled cfg"
    and nm: "nm = circuitBreakerName cfg ctx"
    and reg: "registry w nm = Some cb"
    and st: "cb_state cb = StateClosed"
    and cb1: "cb1 = fst (beforeRequest cb (now w))"
    and h: "handler ctx req (store cfg nm (cb1, []) w) = (out, w3)"
    and f: "\<forall>result err. out = Return result err \<longrightarrow> \<not> isSuccessful cfg err"
    and frame: "registry w3 nm = Some cb1"
    and win: "\<forall>d. cb_expiry cb1 = Some d \<longrightarrow> now w3 \<le> d"
    and trip: "readyToTrip cfg (counts_onFailure (cb_counts cb1))"
  shows "\<exists>w4 cbF. registry w4 nm = Some cbF \<and> cb_state cbF = StateOpen \<and>
           cb_expiry cbF = Some (now w3 + cb_timeout cb) \<and> cb_counts cbF = no_counts \<and>
           cb_generation cbF = cb_generation cb1 + 1 \<and>
           circuitbreaker_Server opts handler ctx req w =
             (case out of
                Panic e \<Rightarrow> (Panic e, w4)
              | Return result err \<Rightarrow>
                  if err = Some ErrOpenState
                  then fallbackHandler cfg ctx req (w4\<lparr>klog := klog w4 @ [open_warning ctx]\<rparr>)
                  else (Return result err, w4))"
proof -
  from beforeRequest_Closed[OF st, of "now w"] cb1
  have to: "cb_timeout cb1 = cb_timeout cb" by auto
  let ?cbF = "toNewGeneration (cb1\<lparr>cb_counts := counts_onFailure (cb_counts cb1), cb_state := StateOpen\<rparr>) (now w3)"
  let ?w4 = "store cfg nm (?cbF, [(StateClosed, StateOpen)]) w3"
  have "registry ?w4 nm = Some ?cbF" by (simp add: registry_store)
  moreover have "cb_state ?cbF = StateOpen" "cb_expiry ?cbF = Some (now w3 + cb_timeout cb)"
    "cb_counts ?cbF = no_counts" "cb_generation ?cbF = cb_generation cb1 + 1"
    by (simp_all add: toNewGeneration_def to)
  moreover note Server_trips_to[where handler = handler and ctx = ctx and req = req,
                  OF cfg en nm reg st cb1 h f frame win trip refl refl]
  ultimately show ?thesis by blast
qed

lemma afterRequest_count:
  assumes st: "cb_state cb1 = StateClosed"
    and win: "\<forall>d. cb_expiry cb1 = Some d \<longrightarrow> t \<le> d"
    and trip: "\<not> trip (counts_onFailure (cb_counts cb1))"
  shows "afterRequest trip cb1 (cb_generation cb1) False t =
           (cb1\<lparr>cb_counts := counts_onFailure (cb_counts cb1)\<rparr>, [])"
proof -
  have cs: "currentState cb1 t = (cb1, [])"
    using st win by (cases "cb_expiry cb1") (auto simp: currentState_def expiry_before_def)
  show ?thesis
    using st trip by (simp add: afterRequest_def cs onFailure_def Let_def)
qed

lemma Server_counts_failure:
  assumes cfg: "cfg = apply_opts circuitbreaker_defaults opts" and en: "\<not> cbo_disabled cfg"
    and nm: "nm = circuitBreakerName cfg ctx"
    and reg: "registry w nm = Some cb"
    and st: "cb_state cb = StateClosed"
    and cb1: "cb1 = fst (beforeRequest cb (now w))"
    and h: "handler ctx req (store cfg nm (cb1, []) w) = (Return result err, w3)"
    and f: "\<not> isSuccessful cfg err" and e: "err \<noteq> Some ErrOpenState"
    and frame: "registry w3 nm = Some cb1"
    and win: "\<forall>d. cb_expiry cb1 = Some d \<longrightarrow> now w3 \<le> d"
    and trip: "\<not> readyToTrip cfg (counts_onFailure (cb_counts cb1))"
  shows "circuitbreaker_Server opts handler ctx req w =
           (Return result err, store cfg nm (cb1\<lparr>cb_counts := counts_onFailure (cb_counts cb1)\<rparr>, []) w3)"
proof -
  from beforeRequest_Closed[OF st, of "now w"] cb1
  have br: "beforeRequest cb (now w) = (cb1, [], Inr (cb_generation cb1))"
    and st1: "cb_state cb1 = StateClosed" by auto
  have ar: "afterRequest (readyToTrip cfg) cb1 (cb_generation cb1) False (now w3) =
              (cb1\<lparr>cb_counts := counts_onFailure (cb_counts cb1)\<rparr>, [])"
    using st1 win trip by (rule afterRequest_count)
  have ex: "Execute cfg nm cb (handler ctx req) w =
              (Return result err, store cfg nm (cb1\<lparr>cb_counts := counts_onFailure (cb_counts cb1)\<rparr>, []) w3)"
    by (simp add: Execute_def br h frame f Let_def ar)
  show ?thesis
    using reg e by (simp add: circuitbreaker_Server_enabled[OF cfg en] nm[symmetric] get_or_create_def ex)
qed

lemma apply_no_options: "apply_opts circuitbreaker_defaults [] = circuitbreaker_defaults"
  by (simp add: apply_opts_def)

lemma no_counts_unfolded: "no_counts = \<lparr>Requests = 0, TotalSuccesses = 0, TotalFailures = 0,
                 ConsecutiveSuccesses = 0, ConsecutiveFailures = 0\<rparr>" by (simp add: no_counts_def)

lemma new_breaker: "gobreaker_NewCircuitBreaker ''server'' 100 60000000000 60000000000 0 = failing_breaker 0"
  by (simp add: gobreaker_NewCircuitBreaker_def toNewGeneration_def failing_breaker_def no_counts_unfolded)

lemma first_lookup_creates: "get_or_create circuitbreaker_defaults ''server'' proc0 = (failing_breaker 0, after_failures 0)"
  by (simp add: get_or_create_def proc0_def circuitbreaker_defaults_def new_breaker after_failures_def Let_def)

lemma admitted: "n < 10 \<Longrightarrow> fst (beforeRequest (failing_breaker n) 0) =
    (failing_breaker n)\<lparr>cb_counts := (cb_counts (failing_breaker n))\<lparr>Requests := of_nat (Suc n)\<rparr>\<rparr>"
  by (simp add: beforeRequest_def currentState_def expiry_before_def failing_breaker_def onRequest_def)

lemma defaults_read:
  "\<not> cbo_disabled (circuitbreaker_defaults :: nat circuitbreaker_options)"
  "circuitBreakerName (circuitbreaker_defaults :: nat circuitbreaker_options) bare_ctx = ''server''"
  "isSuccessful (circuitbreaker_defaults :: nat circuitbreaker_options) err = (err = None)"
  "readyToTrip (circuitbreaker_defaults :: nat circuitbreaker_options) = default_readyToTrip"
  by (simp_all add: circuitbreaker_defaults_def bare_ctx_def)

lemma store_after:
  "store (circuitbreaker_defaults :: nat circuitbreaker_options) ''server'' (cb, []) (after_failures n) =
     proc0\<lparr>registry := (\<lambda>key. None)(''server'' \<mapsto> cb), hstate := n\<rparr>"
  by (simp add: store_def report_def after_failures_def proc0_def)

lemma next_call:
  assumes n: "n < 9"
  shows "circuitbreaker_Server [] always_down bare_ctx req (after_failures n) =
     (Return NilValue (Some (Errorf ''down'')), after_failures (Suc n))"
proof -
  define cb1 where "cb1 = (failing_breaker n)\<lparr>cb_counts := (cb_counts (failing_breaker n))\<lparr>Requests := of_nat (Suc n)\<rparr>\<rparr>"
  define w3 where "w3 = proc0\<lparr>registry := (\<lambda>key. None)(''server'' \<mapsto> cb1), hstate := Suc n\<rparr>"
  let ?cfg = "circuitbreaker_defaults :: nat circuitbreaker_options"
  have u0: "unat (of_nat (Suc n) :: 32 word) = Suc n" using n by (simp add: unat_of_nat del: of_nat_Suc)
  note u = u0 u0[simplified]
  have c: "?cfg = apply_opts circuitbreaker_defaults []" by (simp add: apply_no_options)
  have en: "\<not> cbo_disabled ?cfg" by (simp add: defaults_read)
  have nm: "''server'' = circuitBreakerName ?cfg bare_ctx" by (simp add: defaults_read)
  have 1: "registry (after_failures n) ''server'' = Some (failing_breaker n)"
    by (simp add: after_failures_def)
  have st: "cb_state (failing_breaker n) = StateClosed" by (simp add: failing_breaker_def)
  have 2: "cb1 = fst (beforeRequest (failing_breaker n) (now (after_failures n)))"
    using n by (simp add: admitted after_failures_def proc0_def cb1_def)
  have 3: "always_down bare_ctx req (store ?cfg ''server'' (cb1, []) (after_failures n))
             = (Return NilValue (Some (Errorf ''down'')), w3)"
    by (simp add: store_after always_down_def proc0_def w3_def)
  have f: "\<not> isSuccessful ?cfg (Some (Errorf ''down''))" by (simp add: defaults_read)
  have e: "Some (Errorf ''down'') \<noteq> Some ErrOpenState" by simp
  have fr: "registry w3 ''server'' = Some cb1" by (simp add: w3_def)
  have win: "\<forall>d. cb_expiry cb1 = Some d \<longrightarrow> now w3 \<le> d"
    by (simp add: cb1_def w3_def failing_breaker_def proc0_def)
  have 4: "\<not> readyToTrip ?cfg (counts_onFailure (cb_counts cb1))"
    using n u by (simp add: defaults_read default_readyToTrip_def counts_onFailure_def failing_breaker_def cb1_def)
  have "store ?cfg ''server'' (cb1\<lparr>cb_counts := counts_onFailure (cb_counts cb1)\<rparr>, []) w3
      = after_failures (Suc n)"
    by (simp add: store_def report_def after_failures_def proc0_def failing_breaker_def
          counts_onFailure_def cb1_def w3_def add.commute)
  with Server_counts_failure[where handler = always_down and ctx = bare_ctx and req = req,
         OF c en nm 1 st 2 3 f e fr win 4] show ?thesis by simp
qed

lemma first_call_creates:
  "circuitbreaker_Server [] always_down bare_ctx req proc0 =
   circuitbreaker_Server [] always_down bare_ctx req (after_failures 0)"
proof -
  have c: "(circuitbreaker_defaults :: nat circuitbreaker_options) = apply_opts circuitbreaker_defaults []"
    by (simp add: apply_no_options)
  have g: "get_or_create circuitbreaker_defaults ''server'' (after_failures 0) = (failing_breaker 0, after_failures 0)"
    by (simp add: get_or_create_def after_failures_def)
  show ?thesis
    by (simp add: circuitbreaker_Server_enabled[OF c defaults_read(1)] defaults_read(2) first_lookup_creates g)
qed

lemma tenth_call:
  "circuitbreaker_Server [] always_down bare_ctx req (after_failures 9) =
     (Return NilValue (Some (Errorf ''down'')), tripped)"
proof -
  define cb1 where "cb1 = (failing_breaker 9)\<lparr>cb_counts := (cb_counts (failing_breaker 9))\<lparr>Requests := 10\<rparr>\<rparr>"
  define w3 where "w3 = proc0\<lparr>registry := (\<lambda>key. None)(''server'' \<mapsto> cb1), hstate := 10\<rparr>"
  let ?cfg = "circuitbreaker_defaults :: nat circuitbreaker_options"
  have c: "?cfg = apply_opts circuitbreaker_defaults []" by (simp add: apply_no_options)
  have en: "\<not> cbo_disabled ?cfg" by (simp add: defaults_read)
  have nm: "''server'' = circuitBreakerName ?cfg bare_ctx" by (simp add: defaults_read)
  have 1: "registry (after_failures 9) ''server'' = Some (failing_breaker 9)"
    by (simp add: after_failures_def)
  have st: "cb_state (failing_breaker 9) = StateClosed" by (simp add: failing_breaker_def)
  have 2: "cb1 = fst (beforeRequest (failing_breaker 9) (now (after_failures 9)))"
    by (simp add: admitted after_failures_def proc0_def cb1_def)
  have 3: "always_down bare_ctx req (store ?cfg ''server'' (cb1, []) (after_failures 9))
             = (Return NilValue (Some (Errorf ''down'')), w3)"
    by (simp add: store_after always_down_def proc0_def w3_def)
  have f: "\<forall>result err. Return NilValue (Some (Errorf ''down'')) = Return result err \<longrightarrow> \<not> isSuccessful ?cfg err"
    by (simp add: defaults_read)
  have fr: "registry w3 ''server'' = Some cb1" by (simp add: w3_def)
  have win: "\<forall>d. cb_expiry cb1 = Some d \<longrightarrow> now w3 \<le> d"
    by (simp add: cb1_def w3_def failing_breaker_def proc0_def)
  have 4: "readyToTrip ?cfg (counts_onFailure (cb_counts cb1))"
    by (simp add: defaults_read default_readyToTrip_def counts_onFailure_def failing_breaker_def cb1_def)
  have cbF: "tripped_breaker = toNewGeneration (cb1\<lparr>cb_counts := counts_onFailure (cb_counts cb1),
                                        cb_state := StateOpen\<rparr>) (now w3)"
    by (simp add: tripped_breaker_def toNewGeneration_def cb1_def failing_breaker_def w3_def proc0_def)
  have w4: "tripped = store ?cfg ''server'' (tripped_breaker, [(StateClosed, StateOpen)]) w3"
    by (simp add: tripped_def store_def report_def w3_def proc0_def circuitbreaker_defaults_def
          tripped_breaker_def)
  from Server_trips_to[where handler = always_down and ctx = bare_ctx and req = req,
         OF c en nm 1 st 2 3 f fr win 4 cbF w4] show ?thesis by simp
qed

lemma eleventh_call:
  "circuitbreaker_Server [] always_down bare_ctx req tripped =
     (Return NilValue (Some ErrCircuitOpen),
      tripped\<lparr>klog := klog tripped @ [(LevelWarn, ''[] server  circuit breaker is open'')]\<rparr>)"
proof -
  let ?cfg = "circuitbreaker_defaults :: nat circuitbreaker_options"
  have c: "?cfg = apply_opts circuitbreaker_defaults []" by (simp add: apply_no_options)
  have en: "\<not> cbo_disabled ?cfg" by (simp add: defaults_read)
  have reg: "registry tripped (circuitBreakerName ?cfg bare_ctx) = Some tripped_breaker"
    by (simp add: defaults_read tripped_def)
  have st: "cb_state tripped_breaker = StateOpen" and ex: "cb_expiry tripped_breaker = Some 60000000000"
    by (simp_all add: tripped_breaker_def)
  have t: "now tripped \<le> 60000000000" by (simp add: tripped_def proc0_def)
  have fb: "fallbackHandler ?cfg = (\<lambda>ctx req w. (Return NilValue (Some ErrCircuitOpen), w))"
    by (simp add: circuitbreaker_defaults_def)
  have ow: "open_warning bare_ctx = (LevelWarn, ''[] server  circuit breaker is open'')"
    by (simp add: open_warning_def kind_operation_def bare_ctx_def)
  from Server_Open_rejects[OF c en reg st ex t, of always_down req] show ?thesis
    by (simp add: fb ow)
qed

lemma serve_all_snoc: "serve_all h (cs @ [c]) w = snd (h (fst c) (snd c) (serve_all h cs w))"
  by (induction cs arbitrary: w) simp_all

lemma now_store: "now (store cfg key r w) = now w"
  by (cases r) (simp add: store_def now_report)

lemma beforeRequest_Closed_in_window:
  "cb_state cb = StateClosed \<Longrightarrow> \<forall>d. cb_expiry cb = Some d \<longrightarrow> t \<le> d \<Longrightarrow>
     fst (beforeRequest cb t) = cb\<lparr>cb_counts := onRequest (cb_counts cb)\<rparr>"
  by (cases "cb_expiry cb") (auto simp: beforeRequest_def currentState_def expiry_before_def)

lemma Server_failure_counted:
  assumes cfg: "cfg = apply_opts circuitbreaker_defaults opts" and en: "\<not> cbo_disabled cfg"
    and nm: "nm = circuitBreakerName cfg ctx"
    and reg: "registry w nm = Some cb"
    and st: "cb_state cb = StateClosed"
    and win: "\<forall>d. cb_expiry cb = Some d \<longrightarrow> now w \<le> d"
    and pf: "plain_failing cfg handler"
    and trip: "\<not> readyToTrip cfg (fail_counts (cb_counts cb))"
  shows "registry (snd (circuitbreaker_Server opts handler ctx req w)) nm
           = Some (cb\<lparr>cb_counts := fail_counts (cb_counts cb)\<rparr>) \<and>
         now (snd (circuitbreaker_Server opts handler ctx req w)) = now w"
proof -
  define cb1 where "cb1 = cb\<lparr>cb_counts := onRequest (cb_counts cb)\<rparr>"
  define w2 where "w2 = store cfg nm (cb1, []) w"
  have cb1: "cb1 = fst (beforeRequest cb (now w))"
    using beforeRequest_Closed_in_window[OF st win] by (simp add: cb1_def)
  from beforeRequest_Closed[OF st, of "now w"] cb1
  have br: "beforeRequest cb (now w) = (cb1, [], Inr (cb_generation cb1))" by auto
  obtain out w3 where h: "handler ctx req w2 = (out, w3)" by (cases "handler ctx req w2")
  from pf[unfolded plain_failing_def, rule_format, of ctx req w2] h
  have f: "case out of Panic e \<Rightarrow> True | Return result err \<Rightarrow> \<not> isSuccessful cfg err \<and> err \<noteq> Some ErrOpenState"
    and r3: "registry w3 = registry w2" and n3: "now w3 = now w"
    by (simp_all add: now_store w2_def)
  have frame: "registry w3 nm = Some cb1" by (simp add: r3 registry_store w2_def)
  have st1: "cb_state cb1 = StateClosed" using st by (simp add: cb1_def)
  have win1: "\<forall>d. cb_expiry cb1 = Some d \<longrightarrow> now w3 \<le> d" using win n3 by (simp add: cb1_def)
  have trip1: "\<not> readyToTrip cfg (counts_onFailure (cb_counts cb1))"
    using trip by (simp add: fail_counts_def cb1_def)
  have ar: "afterRequest (readyToTrip cfg) cb1 (cb_generation cb1) False (now w3) =
              (cb1\<lparr>cb_counts := counts_onFailure (cb_counts cb1)\<rparr>, [])"
    using st1 win1 trip1 by (rule afterRequest_count)
  have succ: "(case out of Return result err \<Rightarrow> isSuccessful cfg err | Panic e \<Rightarrow> False) = False"
    using f by (cases out) auto
  define w4 where "w4 = store cfg nm (cb1\<lparr>cb_counts := counts_onFailure (cb_counts cb1)\<rparr>, []) w3"
  have ex: "Execute cfg nm cb (handler ctx req) w = (out, w4)"
    using h by (simp add: Execute_def br frame succ Let_def ar w4_def w2_def)
  have "circuitbreaker_Server opts handler ctx req w = (out, w4)"
    using reg f by (cases out)
      (simp_all add: circuitbreaker_Server_enabled[OF cfg en] nm[symmetric] get_or_create_def ex)
  then show ?thesis by (simp add: w4_def registry_store now_store n3 fail_counts_def cb1_def)
qed

lemma Server_failure_trips:
  assumes cfg: "cfg = apply_opts circuitbreaker_defaults opts" and en: "\<not> cbo_disabled cfg"
    and nm: "nm = circuitBreakerName cfg ctx"
    and reg: "registry w nm = Some cb"
    and st: "cb_state cb = StateClosed"
    and win: "\<forall>d. cb_expiry cb = Some d \<longrightarrow> now w \<le> d"
    and pf: "plain_failing cfg handler"
    and trip: "readyToTrip cfg (fail_counts (cb_counts cb))"
  shows "\<exists>cbF. registry (snd (circuitbreaker_Server opts handler ctx req w)) nm = Some cbF \<and>
           cb_state cbF = StateOpen \<and> cb_expiry cbF = Some (now w + cb_timeout cb)"
proof -
  define cb1 where "cb1 = cb\<lparr>cb_counts := onRequest (cb_counts cb)\<rparr>"
  define w2 where "w2 = store cfg nm (cb1, []) w"
  have cb1: "cb1 = fst (beforeRequest cb (now w))"
    using beforeRequest_Closed_in_window[OF st win] by (simp add: cb1_def)
  obtain out w3 where h: "handler ctx req w2 = (out, w3)" by (cases "handler ctx req w2")
  from pf[unfolded plain_failing_def, rule_format, of ctx req w2] h
  have f: "case out of Panic e \<Rightarrow> True | Return result err \<Rightarrow> \<not> isSuccessful cfg err \<and> err \<noteq> Some ErrOpenState"
    and r3: "registry w3 = registry w2" and n3: "now w3 = now w"
    by (simp_all add: now_store w2_def)
  have f1: "\<forall>result err. out = Return result err \<longrightarrow> \<not> isSuccessful cfg err" using f by auto
  have frame: "registry w3 nm = Some cb1" by (simp add: r3 registry_store w2_def)
  have win1: "\<forall>d. cb_expiry cb1 = Some d \<longrightarrow> now w3 \<le> d" using win n3 by (simp add: cb1_def)
  have trip1: "readyToTrip cfg (counts_onFailure (cb_counts cb1))"
    using trip by (simp add: fail_counts_def cb1_def)
  define cbF where "cbF = toNewGeneration (cb1\<lparr>cb_counts := counts_onFailure (cb_counts cb1),
                                        cb_state := StateOpen\<rparr>) (now w3)"
  define w4 where "w4 = store cfg nm (cbF, [(StateClosed, StateOpen)]) w3"
  from Server_trips_to[where handler = handler and ctx = ctx and req = req,
         OF cfg en nm reg st cb1 h[unfolded w2_def] f1 frame win1 trip1 cbF_def w4_def]
  have "circuitbreaker_Server opts handler ctx req w = (out, w4)"
    using f by (cases out) simp_all
  then have "registry (snd (circuitbreaker_Server opts handler ctx req w)) nm = Some cbF"
    by (simp add: registry_store w4_def)
  moreover have "cb_state cbF = StateOpen" "cb_expiry cbF = Some (now w + cb_timeout cb)"
    by (simp_all add: toNewGeneration_def n3 cbF_def cb1_def)
  ultimately show ?thesis by blast
qed

lemma failing_calls_counted:
  assumes cfg: "cfg = apply_opts circuitbreaker_defaults opts" and en: "\<not> cbo_disabled cfg"
    and pf: "plain_failing cfg handler"
  shows "\<forall>c\<in>set cs. circuitBreakerName cfg (fst c) = nm \<Longrightarrow> registry w nm = Some cb \<Longrightarrow>
         cb_state cb = StateClosed \<Longrightarrow> \<forall>d. cb_expiry cb = Some d \<longrightarrow> now w \<le> d \<Longrightarrow>
         \<forall>j. 1 \<le> j \<and> j \<le> length cs \<longrightarrow> \<not> readyToTrip cfg ((fail_counts ^^ j) (cb_counts cb)) \<Longrightarrow>
         registry (serve_all (circuitbreaker_Server opts handler) cs w) nm
           = Some (cb\<lparr>cb_counts := (fail_counts ^^ length cs) (cb_counts cb)\<rparr>) \<and>
         now (serve_all (circuitbreaker_Server opts handler) cs w) = now w"
proof (induction cs arbitrary: w cb)
  case Nil
  then show ?case by simp
next
  case (Cons c cs)
  let ?w1 = "snd (circuitbreaker_Server opts handler (fst c) (snd c) w)"
  let ?cb1 = "cb\<lparr>cb_counts := fail_counts (cb_counts cb)\<rparr>"
  have nm: "nm = circuitBreakerName cfg (fst c)" using Cons.prems(1) by simp
  have t1: "\<not> readyToTrip cfg (fail_counts (cb_counts cb))"
    using Cons.prems(5)[rule_format, of 1] by simp
  from Server_failure_counted[OF cfg en nm Cons.prems(2) Cons.prems(3) Cons.prems(4) pf t1, of "snd c"]
  have r1: "registry ?w1 nm = Some ?cb1" and n1: "now ?w1 = now w" by simp_all
  have a: "\<forall>c\<in>set cs. circuitBreakerName cfg (fst c) = nm" using Cons.prems(1) by simp
  have s1: "cb_state ?cb1 = StateClosed" using Cons.prems(3) by simp
  have w1: "\<forall>d. cb_expiry ?cb1 = Some d \<longrightarrow> now ?w1 \<le> d" using Cons.prems(4) n1 by simp
  have tr: "\<forall>j. 1 \<le> j \<and> j \<le> length cs \<longrightarrow> \<not> readyToTrip cfg ((fail_counts ^^ j) (cb_counts ?cb1))"
  proof (intro allI impI)
    fix j assume "1 \<le> j \<and> j \<le> length cs"
    then have "\<not> readyToTrip cfg ((fail_counts ^^ Suc j) (cb_counts cb))"
      using Cons.prems(5)[rule_format, of "Suc j"] by simp
    then show "\<not> readyToTrip cfg ((fail_counts ^^ j) (cb_counts ?cb1))"
      by (simp add: funpow_swap1)
  qed
  from Cons.IH[OF a r1 s1 w1 tr] n1 show ?case by (simp add: funpow_swap1)
qed

lemma failing_calls_trip:
  assumes cfg: "cfg = apply_opts circuitbreaker_defaults opts" and en: "\<not> cbo_disabled cfg"
    and pf: "plain_failing cfg handler"
    and nms: "\<forall>c\<in>set cs. circuitBreakerName cfg (fst c) = nm"
    and reg: "registry w nm = Some cb"
    and st: "cb_state cb = StateClosed"
    and win: "\<forall>d. cb_expiry cb = Some d \<longrightarrow> now w \<le> d"
    and len: "length cs = Suc k"
    and no: "\<forall>j. 1 \<le> j \<and> j \<le> k \<longrightarrow> \<not> readyToTrip cfg ((fail_counts ^^ j) (cb_counts cb))"
    and yes: "readyToTrip cfg ((fail_counts ^^ Suc k) (cb_counts cb))"
  shows "(\<forall>j\<le>k. \<exists>cbj. registry (serve_all (circuitbreaker_Server opts handler) (take j cs) w) nm = Some cbj \<and>
                    cb_state cbj = StateClosed) \<and>
         (\<exists>cbF. registry (serve_all (circuitbreaker_Server opts handler) cs w) nm = Some cbF \<and>
                 cb_state cbF = StateOpen \<and> cb_expiry cbF = Some (now w + cb_timeout cb))"
proof -
  let ?S = "circuitbreaker_Server opts handler"
  have counted: "registry (serve_all ?S (take j cs) w) nm
                   = Some (cb\<lparr>cb_counts := (fail_counts ^^ j) (cb_counts cb)\<rparr>) \<and>
                 now (serve_all ?S (take j cs) w) = now w" if j: "j \<le> k" for j
  proof -
    have l: "length (take j cs) = j" using j len by simp
    have a: "\<forall>c\<in>set (take j cs). circuitBreakerName cfg (fst c) = nm"
      using nms by (meson in_set_takeD)
    have b: "\<forall>i. 1 \<le> i \<and> i \<le> length (take j cs) \<longrightarrow> \<not> readyToTrip cfg ((fail_counts ^^ i) (cb_counts cb))"
      using no j l by auto
    from failing_calls_counted[OF cfg en pf a reg st win b] l show ?thesis by simp
  qed
  have closed: "\<forall>j\<le>k. \<exists>cbj. registry (serve_all ?S (take j cs) w) nm = Some cbj \<and> cb_state cbj = StateClosed"
  proof (intro allI impI)
    fix j assume "j \<le> k"
    from counted[OF this] st
    show "\<exists>cbj. registry (serve_all ?S (take j cs) w) nm = Some cbj \<and> cb_state cbj = StateClosed"
      by simp
  qed
  have ne: "cs \<noteq> []" using len by auto
  have split: "cs = take k cs @ [last cs]"
    using len ne by (metis butlast_conv_take diff_Suc_1 snoc_eq_iff_butlast)
  let ?wk = "serve_all ?S (take k cs) w"
  let ?cbk = "cb\<lparr>cb_counts := (fail_counts ^^ k) (cb_counts cb)\<rparr>"
  from counted[of k] have rk: "registry ?wk nm = Some ?cbk" and nk: "now ?wk = now w" by simp_all
  have nl: "nm = circuitBreakerName cfg (fst (last cs))" using nms ne by simp
  have sk: "cb_state ?cbk = StateClosed" using st by simp
  have wk: "\<forall>d. cb_expiry ?cbk = Some d \<longrightarrow> now ?wk \<le> d" using win nk by simp
  have tk: "readyToTrip cfg (fail_counts (cb_counts ?cbk))" using yes by simp
  from Server_failure_trips[OF cfg en nl rk sk wk pf tk, of "snd (last cs)"]
  obtain cbF where F: "registry (snd (?S (fst (last cs)) (snd (last cs)) ?wk)) nm = Some cbF"
    "cb_state cbF = StateOpen" "cb_expiry cbF = Some (now w + cb_timeout cb)"
    using nk by auto
  have "serve_all ?S cs w = snd (?S (fst (last cs)) (snd (last cs)) ?wk)"
    by (subst split) (simp only: serve_all_snoc)
  with F closed show ?thesis by auto
qed

lemma half_le_ratio: "0 < n \<Longrightarrow> (1 / 2 \<le> real m / real n) = (n \<le> 2 * m)"
proof -
  assume "0 < n"
  then have "(1 / 2 \<le> real m / real n) = (real n \<le> 2 * real m)"
    by (simp add: pos_le_divide_eq mult.commute)
  also have "\<dots> = (n \<le> 2 * m)"
    by (metis of_nat_le_iff of_nat_mult of_nat_numeral)
  finally show ?thesis .
qed

lemma default_readyToTrip_iff:
  "default_readyToTrip c \<longleftrightarrow> 10 \<le> unat (Requests c) \<and> unat (Requests c) \<le> 2 * unat (TotalFailures c)"
proof (cases "10 \<le> unat (Requests c)")
  case True
  then have "0 < unat (Requests c)" by linarith
  from half_le_ratio[OF this] True show ?thesis
    unfolding default_readyToTrip_def by blast
next
  case False
  then show ?thesis unfolding default_readyToTrip_def by blast
qed

lemma always_down_plain: "plain_failing (circuitbreaker_defaults :: nat circuitbreaker_options) always_down"
  by (simp add: plain_failing_def always_down_def circuitbreaker_defaults_def)

lemma fail_counts_failing_breaker:
  "(fail_counts ^^ j) (cb_counts (failing_breaker 0)) = cb_counts (failing_breaker j)"
proof (induction j)
  case 0
  then show ?case by simp
next
  case (Suc j)
  then show ?case
    by (simp add: fail_counts_def counts_onFailure_def onRequest_def failing_breaker_def add.commute)
qed

lemma ten_failures_premises:
  "plain_failing (circuitbreaker_defaults :: nat circuitbreaker_options) always_down \<and>
   (\<forall>c\<in>set (replicate 10 (bare_ctx, Str ''ping'')).
       circuitBreakerName (circuitbreaker_defaults :: nat circuitbreaker_options) (fst c) = ''server'') \<and>
   registry (after_failures 0) ''server'' = Some (failing_breaker 0) \<and>
   cb_state (failing_breaker 0) = StateClosed \<and>
   (\<forall>d. cb_expiry (failing_breaker 0) = Some d \<longrightarrow> now (after_failures 0) \<le> d) \<and>
   length (replicate 10 (bare_ctx, Str ''ping'')) = Suc 9 \<and>
   (\<forall>j. 1 \<le> j \<and> j \<le> 9 \<longrightarrow>
       \<not> readyToTrip (circuitbreaker_defaults :: nat circuitbreaker_options)
            ((fail_counts ^^ j) (cb_counts (failing_breaker 0)))) \<and>
   readyToTrip (circuitbreaker_defaults :: nat circuitbreaker_options)
     ((fail_counts ^^ Suc 9) (cb_counts (failing_breaker 0)))"
proof -
  have no: "\<not> default_readyToTrip (cb_counts (failing_breaker j))" if "j \<le> 9" for j
  proof -
    have "unat (of_nat j :: 32 word) = j" using that by (simp add: unat_of_nat)
    then show ?thesis using that by (simp add: default_readyToTrip_iff failing_breaker_def)
  qed
  have yes: "default_readyToTrip (cb_counts (failing_breaker 10))"
    by (simp add: default_readyToTrip_iff failing_breaker_def)
  have e: "Suc 9 = 10" by simp
  show ?thesis
    unfolding fail_counts_failing_breaker defaults_read e
    using always_down_plain no yes
    by (simp add: defaults_read after_failures_def failing_breaker_def proc0_def)
qed

lemma tenth_premises:
  fixes req :: Value
  defines "cb1 \<equiv> (failing_breaker 9)\<lparr>cb_counts := (cb_counts (failing_breaker 9))\<lparr>Requests := 10\<rparr>\<rparr>"
  defines "w3 \<equiv> proc0\<lparr>registry := (\<lambda>key. None)(''server'' \<mapsto> cb1), hstate := 10\<rparr>"
  shows "registry (after_failures 9) (circuitBreakerName (circuitbreaker_defaults :: nat circuitbreaker_options) bare_ctx)
           = Some (failing_breaker 9) \<and>
         cb_state (failing_breaker 9) = StateClosed \<and>
         cb1 = fst (beforeRequest (failing_breaker 9) (now (after_failures 9))) \<and>
         always_down bare_ctx req
           (store (circuitbreaker_defaults :: nat circuitbreaker_options)
              (circuitBreakerName (circuitbreaker_defaults :: nat circuitbreaker_options) bare_ctx) (cb1, [])
              (after_failures 9))
           = (Return NilValue (Some (Errorf ''down'')), w3) \<and>
         (\<forall>result err. Return NilValue (Some (Errorf ''down'')) = Return result err \<longrightarrow>
             \<not> isSuccessful (circuitbreaker_defaults :: nat circuitbreaker_options) err) \<and>
         registry w3 (circuitBreakerName (circuitbreaker_defaults :: nat circuitbreaker_options) bare_ctx) = Some cb1 \<and>
         (\<forall>d. cb_expiry cb1 = Some d \<longrightarrow> now w3 \<le> d) \<and>
         readyToTrip (circuitbreaker_defaults :: nat circuitbreaker_options) (counts_onFailure (cb_counts cb1))"
proof -
  have 1: "registry (after_failures 9) ''server'' = Some (failing_breaker 9)"
    by (simp add: after_failures_def)
  have st: "cb_state (failing_breaker 9) = StateClosed" by (simp add: failing_breaker_def)
  have 2: "cb1 = fst (beforeRequest (failing_breaker 9) (now (after_failures 9)))"
    by (simp add: admitted after_failures_def proc0_def cb1_def)
  have 3: "always_down bare_ctx req (store (circuitbreaker_defaults :: nat circuitbreaker_options) ''server'' (cb1, []) (after_failures 9))
             = (Return NilValue (Some (Errorf ''down'')), w3)"
    by (simp add: store_after always_down_def proc0_def w3_def)
  have fr: "registry w3 ''server'' = Some cb1" by (simp add: w3_def)
  have win: "\<forall>d. cb_expiry cb1 = Some d \<longrightarrow> now w3 \<le> d"
    by (simp add: cb1_def w3_def failing_breaker_def proc0_def)
  have 4: "default_readyToTrip (counts_onFailure (cb_counts cb1))"
    by (simp add: default_readyToTrip_def counts_onFailure_def failing_breaker_def cb1_def)
  show ?thesis
    unfolding defaults_read using 1 st 2 3 fr win 4 by simp
qed

lemma task_alone:
  "i < length (locals s) \<Longrightarrow> locals s ! i = AtLookup \<Longrightarrow>
     shared (task_step cfg nm i (task_step cfg nm i s)) = snd (get_or_create cfg nm (shared s)) \<and>
     locals (task_step cfg nm i (task_step cfg nm i s)) ! i = Holding (fst (get_or_create cfg nm (shared s)))"
  by (cases "registry (shared s) nm") (simp_all add: task_step_def get_or_create_def Let_def)

lemma task_alone_hit:
  assumes "i < length (locals s)" "locals s ! i = AtLookup" "registry (shared s) nm = Some cb"
  shows "task_step cfg nm i (task_step cfg nm i s) = s\<lparr>locals := (locals s)[i := Holding cb]\<rparr>"
  using assms by (simp add: task_step_def)

lemma task_alone_miss:
  assumes "i < length (locals s)" "locals s ! i = AtLookup" "registry (shared s) nm = None"
  shows "task_step cfg nm i (task_step cfg nm i s) =
           s\<lparr>shared := (shared s)\<lparr>registry := (registry (shared s))(nm \<mapsto>
                  gobreaker_NewCircuitBreaker nm (maxRequests cfg) (interval cfg) (timeout cfg) (now (shared s)))\<rparr>,
             locals := (locals s)[i := Holding
                  (gobreaker_NewCircuitBreaker nm (maxRequests cfg) (interval cfg) (timeout cfg) (now (shared s)))],
             made := made s @ [(i, nm)]\<rparr>"
  using assms by (simp add: task_step_def Let_def)

lemma reuse_after_creation:
  "distinct order \<Longrightarrow> \<forall>i\<in>set order. i < length (locals s) \<and> locals s ! i = AtLookup \<Longrightarrow>
   registry (shared s) nm = Some cb \<Longrightarrow>
     made (run_schedule cfg nm (one_by_one order) s) = made s \<and>
     shared (run_schedule cfg nm (one_by_one order) s) = shared s \<and>
     length (locals (run_schedule cfg nm (one_by_one order) s)) = length (locals s) \<and>
     (\<forall>i\<in>set order. locals (run_schedule cfg nm (one_by_one order) s) ! i = Holding cb) \<and>
     (\<forall>j. j \<notin> set order \<longrightarrow> locals (run_schedule cfg nm (one_by_one order) s) ! j = locals s ! j)"
proof (induction order arbitrary: s)
  case Nil
  then show ?case by (simp add: one_by_one_def)
next
  case (Cons i order)
  let ?s1 = "s\<lparr>locals := (locals s)[i := Holding cb]\<rparr>"
  have i: "i < length (locals s)" "locals s ! i = AtLookup" using Cons.prems(2) by simp_all
  have step: "run_schedule cfg nm (one_by_one (i # order)) s = run_schedule cfg nm (one_by_one order) ?s1"
    using task_alone_hit[OF i Cons.prems(3), of cfg] by (simp add: one_by_one_def)
  have d: "distinct order" and ni: "i \<notin> set order" using Cons.prems(1) by simp_all
  have pre: "\<forall>j\<in>set order. j < length (locals ?s1) \<and> locals ?s1 ! j = AtLookup"
    using Cons.prems(2) ni by (auto simp: nth_list_update)
  have reg: "registry (shared ?s1) nm = Some cb" using Cons.prems(3) by simp
  from Cons.IH[OF d pre reg]
  have IH: "made (run_schedule cfg nm (one_by_one order) ?s1) = made s"
    "shared (run_schedule cfg nm (one_by_one order) ?s1) = shared s"
    "length (locals (run_schedule cfg nm (one_by_one order) ?s1)) = length (locals s)"
    "\<forall>j\<in>set order. locals (run_schedule cfg nm (one_by_one order) ?s1) ! j = Holding cb"
    "\<forall>j. j \<notin> set order \<longrightarrow> locals (run_schedule cfg nm (one_by_one order) ?s1) ! j = locals ?s1 ! j"
    by simp_all
  have hi: "locals (run_schedule cfg nm (one_by_one order) ?s1) ! i = Holding cb"
    using IH(5) ni i(1) by simp
  have others: "\<forall>j. j \<notin> set (i # order) \<longrightarrow>
                  locals (run_schedule cfg nm (one_by_one order) ?s1) ! j = locals s ! j"
    using IH(5) by (auto simp: nth_list_update)
  show ?case unfolding step using IH(1,2,3,4) hi others by simp
qed

subsection \<open>C1: a tripped breaker rejects calls\<close>

text \<open>
  Claim C1, on the breaker modelled above.  First conjunct: let \<open>k + 1\<close> calls go, one
  after the other, through a Closed breaker whose counting interval has not ended, with a
  handler that fails on every call.  If \<open>readyToTrip\<close> does not hold of the counts after
  the first, the second, ... the \<open>k\<close>-th failure and holds after the next one, then the
  breaker is Closed after each of the first \<open>k\<close> calls and Open after the last, with its
  expiry one timeout later.  Second conjunct, for a single call during which time may
  pass: if the breaker is Closed, the handler fails, made no call through the same breaker
  and returned before the counting interval ended, and \<open>readyToTrip\<close> holds of the
  counts with this failure recorded, then the breaker is Open after the call.  Third
  conjunct: while a breaker is Open and its expiry has not passed, every call returns what
  \<open>fallbackHandler\<close> returns, from the state before the call with one warning line added;
  the wrapped handler does not occur in the result, so it is not invoked, and the breaker
  is left as it was.  Fourth conjunct: by default the fallback returns the error
  \<open>circuit breaker is open\<close> and \<open>readyToTrip\<close> holds from ten requests on when at
  least half of them failed.
\<close>

theorem breaker_trips_then_rejects:
  "cfg = apply_opts circuitbreaker_defaults opts \<Longrightarrow> \<not> cbo_disabled cfg \<Longrightarrow>
   (\<forall>cs w cb nm k.
      plain_failing cfg handler \<and> (\<forall>c\<in>set cs. circuitBreakerName cfg (fst c) = nm) \<and>
      registry w nm = Some cb \<and> cb_state cb = StateClosed \<and>
      (\<forall>d. cb_expiry cb = Some d \<longrightarrow> now w \<le> d) \<and> length cs = Suc k \<and>
      (\<forall>j. 1 \<le> j \<and> j \<le> k \<longrightarrow> \<not> readyToTrip cfg ((fail_counts ^^ j) (cb_counts cb))) \<and>
      readyToTrip cfg ((fail_counts ^^ Suc k) (cb_counts cb))
      \<longrightarrow> (\<forall>j\<le>k. \<exists>cbj. registry (serve_all (circuitbreaker_Server opts handler) (take j cs) w) nm = Some cbj \<and>
                         cb_state cbj = StateClosed) \<and>
          (\<exists>cbF. registry (serve_all (circuitbreaker_Server opts handler) cs w) nm = Some cbF \<and>
                  cb_state cbF = StateOpen \<and> cb_expiry cbF = Some (now w + cb_timeout cb)))
   \<and> (\<forall>ctx req w cb cb1 out w3.
      registry w (circuitBreakerName cfg ctx) = Some cb \<and> cb_state cb = StateClosed \<and>
      cb1 = fst (beforeRequest cb (now w)) \<and>
      handler ctx req (store cfg (circuitBreakerName cfg ctx) (cb1, []) w) = (out, w3) \<and>
      (\<forall>result err. out = Return result err \<longrightarrow> \<not> isSuccessful cfg err) \<and>
      registry w3 (circuitBreakerName cfg ctx) = Some cb1 \<and>
      (\<forall>d. cb_expiry cb1 = Some d \<longrightarrow> now w3 \<le> d) \<and>
      readyToTrip cfg (counts_onFailure (cb_counts cb1))
      \<longrightarrow> (\<exists>w4 cbF. registry w4 (circuitBreakerName cfg ctx) = Some cbF \<and> cb_state cbF = StateOpen \<and>
             cb_expiry cbF = Some (now w3 + cb_timeout cb) \<and>
             circuitbreaker_Server opts handler ctx req w =
               (case out of
                  Panic e \<Rightarrow> (Panic e, w4)
                | Return result err \<Rightarrow>
                    if err = Some ErrOpenState
                    then fallbackHandler cfg ctx req (w4\<lparr>klog := klog w4 @ [open_warning ctx]\<rparr>)
                    else (Return result err, w4))))
   \<and> (\<forall>ctx req w cb d.
        registry w (circuitBreakerName cfg ctx) = Some cb \<and> cb_state cb = StateOpen \<and>
        cb_expiry cb = Some d \<and> now w \<le> d
        \<longrightarrow> circuitbreaker_Server opts handler ctx req w =
              fallbackHandler cfg ctx req (w\<lparr>klog := klog w @ [open_warning ctx]\<rparr>))
   \<and> (opts = [] \<longrightarrow>
        (\<forall>ctx req w. fallbackHandler cfg ctx req w = (Return NilValue (Some ErrCircuitOpen), w)) \<and>
        (\<forall>c. readyToTrip cfg c \<longleftrightarrow>
               10 \<le> unat (Requests c) \<and> unat (Requests c) \<le> 2 * unat (TotalFailures c)))"
proof -
  assume cfg: "cfg = apply_opts circuitbreaker_defaults opts" and en: "\<not> cbo_disabled cfg"
  have seq: "\<forall>cs w cb nm k.
      plain_failing cfg handler \<and> (\<forall>c\<in>set cs. circuitBreakerName cfg (fst c) = nm) \<and>
      registry w nm = Some cb \<and> cb_state cb = StateClosed \<and>
      (\<forall>d. cb_expiry cb = Some d \<longrightarrow> now w \<le> d) \<and> length cs = Suc k \<and>
      (\<forall>j. 1 \<le> j \<and> j \<le> k \<longrightarrow> \<not> readyToTrip cfg ((fail_counts ^^ j) (cb_counts cb))) \<and>
      readyToTrip cfg ((fail_counts ^^ Suc k) (cb_counts cb))
      \<longrightarrow> (\<forall>j\<le>k. \<exists>cbj. registry (serve_all (circuitbreaker_Server opts handler) (take j cs) w) nm = Some cbj \<and>
                         cb_state cbj = StateClosed) \<and>
          (\<exists>cbF. registry (serve_all (circuitbreaker_Server opts handler) cs w) nm = Some cbF \<and>
                  cb_state cbF = StateOpen \<and> cb_expiry cbF = Some (now w + cb_timeout cb))"
  proof (intro allI impI, elim conjE)
    fix cs :: "(Ctx \<times> Value) list" and w :: "'a Proc" and cb nm k
    assume a: "plain_failing cfg handler" "\<forall>c\<in>set cs. circuitBreakerName cfg (fst c) = nm"
      "registry w nm = Some cb" "cb_state cb = StateClosed"
      "\<forall>d. cb_expiry cb = Some d \<longrightarrow> now w \<le> d" "length cs = Suc k"
      "\<forall>j. 1 \<le> j \<and> j \<le> k \<longrightarrow> \<not> readyToTrip cfg ((fail_counts ^^ j) (cb_counts cb))"
      "readyToTrip cfg ((fail_counts ^^ Suc k) (cb_counts cb))"
    show "(\<forall>j\<le>k. \<exists>cbj. registry (serve_all (circuitbreaker_Server opts handler) (take j cs) w) nm = Some cbj \<and>
                         cb_state cbj = StateClosed) \<and>
          (\<exists>cbF. registry (serve_all (circuitbreaker_Server opts handler) cs w) nm = Some cbF \<and>
                  cb_state cbF = StateOpen \<and> cb_expiry cbF = Some (now w + cb_timeout cb))"
      by (rule failing_calls_trip[OF cfg en a(1) a(2) a(3) a(4) a(5) a(6) a(7) a(8)])
  qed
  have trip: "\<forall>ctx req w cb cb1 out w3.
      registry w (circuitBreakerName cfg ctx) = Some cb \<and> cb_state cb = StateClosed \<and>
      cb1 = fst (beforeRequest cb (now w)) \<and>
      handler ctx req (store cfg (circuitBreakerName cfg ctx) (cb1, []) w) = (out, w3) \<and>
      (\<forall>result err. out = Return result err \<longrightarrow> \<not> isSuccessful cfg err) \<and>
      registry w3 (circuitBreakerName cfg ctx) = Some cb1 \<and>
      (\<forall>d. cb_expiry cb1 = Some d \<longrightarrow> now w3 \<le> d) \<and>
      readyToTrip cfg (counts_onFailure (cb_counts cb1))
      \<longrightarrow> (\<exists>w4 cbF. registry w4 (circuitBreakerName cfg ctx) = Some cbF \<and> cb_state cbF = StateOpen \<and>
             cb_expiry cbF = Some (now w3 + cb_timeout cb) \<and>
             circuitbreaker_Server opts handler ctx req w =
               (case out of
                  Panic e \<Rightarrow> (Panic e, w4)
                | Return result err \<Rightarrow>
                    if err = Some ErrOpenState
                    then fallbackHandler cfg ctx req (w4\<lparr>klog := klog w4 @ [open_warning ctx]\<rparr>)
                    else (Return result err, w4)))"
  proof (intro allI impI, elim conjE)
    fix ctx req w cb cb1 out w3
    assume a: "registry w (circuitBreakerName cfg ctx) = Some cb" "cb_state cb = StateClosed"
      "cb1 = fst (beforeRequest cb (now w))"
      "handler ctx req (store cfg (circuitBreakerName cfg ctx) (cb1, []) w) = (out, w3)"
      "\<forall>result err. out = Return result err \<longrightarrow> \<not> isSuccessful cfg err"
      "registry w3 (circuitBreakerName cfg ctx) = Some cb1"
      "\<forall>d. cb_expiry cb1 = Some d \<longrightarrow> now w3 \<le> d"
      "readyToTrip cfg (counts_onFailure (cb_counts cb1))"
    from Server_trips[where handler = handler and ctx = ctx and req = req,
           OF cfg en refl a(1) a(2) a(3) a(4) a(5) a(6) a(7) a(8)]
    show "\<exists>w4 cbF. registry w4 (circuitBreakerName cfg ctx) = Some cbF \<and> cb_state cbF = StateOpen \<and>
             cb_expiry cbF = Some (now w3 + cb_timeout cb) \<and>
             circuitbreaker_Server opts handler ctx req w =
               (case out of
                  Panic e \<Rightarrow> (Panic e, w4)
                | Return result err \<Rightarrow>
                    if err = Some ErrOpenState
                    then fallbackHandler cfg ctx req (w4\<lparr>klog := klog w4 @ [open_warning ctx]\<rparr>)
                    else (Return result err, w4))"
      by blast
  qed
  have rej: "\<forall>ctx req w cb d.
        registry w (circuitBreakerName cfg ctx) = Some cb \<and> cb_state cb = StateOpen \<and>
        cb_expiry cb = Some d \<and> now w \<le> d
        \<longrightarrow> circuitbreaker_Server opts handler ctx req w =
              fallbackHandler cfg ctx req (w\<lparr>klog := klog w @ [open_warning ctx]\<rparr>)"
    using Server_Open_rejects[OF cfg en] by blast
  have dfl: "opts = [] \<longrightarrow>
        (\<forall>ctx req w. fallbackHandler cfg ctx req w = (Return NilValue (Some ErrCircuitOpen), w)) \<and>
        (\<forall>c. readyToTrip cfg c \<longleftrightarrow>
               10 \<le> unat (Requests c) \<and> unat (Requests c) \<le> 2 * unat (TotalFailures c))"
    using cfg by (simp add: apply_opts_def circuitbreaker_defaults_def default_readyToTrip_iff)
  from seq trip rej dfl show ?thesis by blast
qed

text \<open>
  Witness for C1, under the default options: ten failing calls in a row open the
  breaker; the tenth call alone, after nine failures, trips it; and the eleventh is
  answered by the fallback without reaching the handler.
\<close>

theorem breaker_trips_then_rejects_witness:
  "(\<exists>cbF. registry (serve_all (circuitbreaker_Server [] always_down)
                     (replicate 10 (bare_ctx, Str ''ping'')) (after_failures 0)) ''server'' = Some cbF \<and>
       cb_state cbF = StateOpen \<and> cb_expiry cbF = Some 60000000000)
   \<and> (\<exists>w4 cbF. registry w4 ''server'' = Some cbF \<and> cb_state cbF = StateOpen \<and>
       cb_expiry cbF = Some 60000000000 \<and>
       circuitbreaker_Server [] always_down bare_ctx (Str ''ping'') (after_failures 9) =
         (Return NilValue (Some (Errorf ''down'')), w4))
   \<and> registry tripped ''server'' = Some tripped_breaker \<and> cb_state tripped_breaker = StateOpen
   \<and> cb_expiry tripped_breaker = Some 60000000000 \<and> now tripped \<le> 60000000000
   \<and> circuitbreaker_Server [] always_down bare_ctx (Str ''ping'') tripped =
       (Return NilValue (Some ErrCircuitOpen),
        tripped\<lparr>klog := klog tripped @ [(LevelWarn, ''[] server  circuit breaker is open'')]\<rparr>)"
proof -
  let ?cfg = "circuitbreaker_defaults :: nat circuitbreaker_options"
  have c: "?cfg = apply_opts circuitbreaker_defaults []" by (simp add: apply_no_options)
  have en: "\<not> cbo_disabled ?cfg" by (simp add: defaults_read)
  note T = breaker_trips_then_rejects[OF c en, of always_down]
  have nm: "circuitBreakerName ?cfg bare_ctx = ''server''" by (simp add: defaults_read)
  have to: "cb_timeout (failing_breaker 9) = 60000000000" "cb_timeout (failing_breaker 0) = 60000000000"
    by (simp_all add: failing_breaker_def)
  have n0: "now (after_failures 0) = 0" by (simp add: after_failures_def proc0_def)
  have n3: "now (proc0\<lparr>registry := (\<lambda>key. None)(''server'' \<mapsto>
              (failing_breaker 9)\<lparr>cb_counts := (cb_counts (failing_breaker 9))\<lparr>Requests := 10\<rparr>\<rparr>), hstate := 10\<rparr>) = 0"
    by (simp add: proc0_def)
  from T[THEN conjunct1, rule_format, OF ten_failures_premises]
  have S: "\<exists>cbF. registry (serve_all (circuitbreaker_Server [] always_down)
                     (replicate 10 (bare_ctx, Str ''ping'')) (after_failures 0)) ''server'' = Some cbF \<and>
       cb_state cbF = StateOpen \<and> cb_expiry cbF = Some 60000000000"
    unfolding to n0 by simp
  from T[THEN conjunct2, THEN conjunct1, rule_format, OF tenth_premises[of "Str ''ping''"]]
  have A: "\<exists>w4 cbF. registry w4 ''server'' = Some cbF \<and> cb_state cbF = StateOpen \<and>
       cb_expiry cbF = Some 60000000000 \<and>
       circuitbreaker_Server [] always_down bare_ctx (Str ''ping'') (after_failures 9) =
         (Return NilValue (Some (Errorf ''down'')), w4)"
    unfolding nm to n3 by simp
  have reg: "registry tripped (circuitBreakerName ?cfg bare_ctx) = Some tripped_breaker"
    by (simp add: defaults_read tripped_def)
  have st: "cb_state tripped_breaker = StateOpen" and ex: "cb_expiry tripped_breaker = Some 60000000000"
    by (simp_all add: tripped_breaker_def)
  have t: "now tripped \<le> 60000000000" by (simp add: tripped_def proc0_def)
  have fb: "fallbackHandler ?cfg = (\<lambda>ctx req w. (Return NilValue (Some ErrCircuitOpen), w))"
    by (simp add: circuitbreaker_defaults_def)
  have ow: "open_warning bare_ctx = (LevelWarn, ''[] server  circuit breaker is open'')"
    by (simp add: open_warning_def kind_operation_def bare_ctx_def)
  from T[THEN conjunct2, THEN conjunct2, THEN conjunct1, rule_format,
         of tripped bare_ctx tripped_breaker 60000000000 "Str ''ping''"]
    reg st ex t
  have B: "circuitbreaker_Server [] always_down bare_ctx (Str ''ping'') tripped =
       (Return NilValue (Some ErrCircuitOpen),
        tripped\<lparr>klog := klog tripped @ [(LevelWarn, ''[] server  circuit breaker is open'')]\<rparr>)"
    by (simp add: fb ow)
  from S A B reg st ex t show ?thesis unfolding nm by blast
qed

subsection \<open>C8: first calls from several tasks\<close>

text \<open>
  When the tasks of \<open>order\<close> go through the registry one after the other, each finishing
  its lookup and, on a miss, its store before the next one looks up: if the key is already
  in the registry, no breaker is created, the registry is unchanged and every task gets
  the stored breaker; if the key is not there, exactly one breaker is created, by the
  first task, and every task ends with that same breaker, which is the one the registry
  holds.
\<close>

lemma registry_creates_once_without_overlap:
  "distinct order \<Longrightarrow> \<forall>i\<in>set order. i < length (locals s) \<and> locals s ! i = AtLookup \<Longrightarrow>
   s' = run_schedule cfg nm (one_by_one order) s \<Longrightarrow>
     (case registry (shared s) nm of
        Some cb \<Rightarrow> made s' = made s \<and> registry (shared s') = registry (shared s) \<and>
                   (\<forall>i\<in>set order. locals s' ! i = Holding cb)
      | None \<Rightarrow>
          (case order of
             [] \<Rightarrow> made s' = made s
           | first # rest \<Rightarrow>
               made s' = made s @ [(first, nm)] \<and>
               (\<exists>cb. registry (shared s') nm = Some cb \<and> (\<forall>i\<in>set order. locals s' ! i = Holding cb))))"
proof -
  assume d: "distinct order" and pre: "\<forall>i\<in>set order. i < length (locals s) \<and> locals s ! i = AtLookup"
    and s': "s' = run_schedule cfg nm (one_by_one order) s"
  show ?thesis
  proof (cases "registry (shared s) nm")
    case (Some cb)
    from reuse_after_creation[OF d pre Some, of cfg] s' Some show ?thesis by simp
  next
    case None
    show ?thesis
    proof (cases order)
      case Nil
      then show ?thesis using None s' by (simp add: one_by_one_def)
    next
      case (Cons first rest)
      let ?cb = "gobreaker_NewCircuitBreaker nm (maxRequests cfg) (interval cfg) (timeout cfg) (now (shared s))"
      let ?s1 = "s\<lparr>shared := (shared s)\<lparr>registry := (registry (shared s))(nm \<mapsto> ?cb)\<rparr>,
                   locals := (locals s)[first := Holding ?cb], made := made s @ [(first, nm)]\<rparr>"
      have f: "first < length (locals s)" "locals s ! first = AtLookup" using pre Cons by simp_all
      have step: "s' = run_schedule cfg nm (one_by_one rest) ?s1"
        using task_alone_miss[OF f None, of cfg] s' Cons by (simp add: one_by_one_def)
      have dr: "distinct rest" and nf: "first \<notin> set rest" using d Cons by simp_all
      have pr: "\<forall>j\<in>set rest. j < length (locals ?s1) \<and> locals ?s1 ! j = AtLookup"
        using pre Cons nf by (auto simp: nth_list_update)
      have reg: "registry (shared ?s1) nm = Some ?cb" by simp
      from reuse_after_creation[OF dr pr reg, of cfg] step
      have R: "made s' = made s @ [(first, nm)]" "shared s' = shared ?s1"
        "\<forall>j\<in>set rest. locals s' ! j = Holding ?cb"
        "\<forall>j. j \<notin> set rest \<longrightarrow> locals s' ! j = locals ?s1 ! j"
        by simp_all
      have hf: "locals s' ! first = Holding ?cb" using R(4) nf f(1) by simp
      have "registry (shared s') nm = Some ?cb" using R(2) by simp
      moreover have "\<forall>i\<in>set order. locals s' ! i = Holding ?cb" using R(3) hf Cons by simp
      ultimately show ?thesis using None Cons R(1) by auto
    qed
  qed
qed

text \<open>
  Claim C8 says that the registry creates at most one breaker per key even when the
  first calls race, by a second check under a guard.  The registry is a plain map that
  the handler reads and writes with no guard and no second check.  Two tasks that make
  the first call for the key \<open>server\<close> one after the other create one breaker.  When both
  look up before either stores, both miss and both create and store a breaker for the
  same key.
\<close>

theorem racing_first_calls_create_two_breakers:
  "made (run_schedule circuitbreaker_defaults ''server'' [0, 0, 1, 1] two_tasks) = [(0, ''server'')] \<and>
   made (run_schedule circuitbreaker_defaults ''server'' [0, 1, 0, 1] two_tasks) = [(0, ''server''), (1, ''server'')]"
  by (simp add: two_tasks_def task_step_def proc0_def Let_def)

subsection \<open>C10: a disabled middleware is the identity\<close>

text \<open>
  Claim C10.  Built with options that leave \<open>disabled\<close> true, the rate limiter and
  the circuit breaker each return the handler they are given: the wrapped handler is the
  handler itself, so after any call the bucket and the registry are as the handler alone
  leaves them.
\<close>

theorem disabled_is_identity:
  "(rl_disabled (apply_opts ratelimit_defaults ropts) \<longrightarrow>
      ratelimit_Server ropts h = h \<and>
      (\<forall>ctx req w. bucket (snd (ratelimit_Server ropts h ctx req w)) = bucket (snd (h ctx req w))))
   \<and> (cbo_disabled (apply_opts circuitbreaker_defaults copts) \<longrightarrow>
      circuitbreaker_Server copts h = h \<and>
      (\<forall>ctx req w. registry (snd (circuitbreaker_Server copts h ctx req w)) = registry (snd (h ctx req w))))"
  by (simp add: ratelimit_Server_def circuitbreaker_Server_def)

text \<open>
  Witness for C10: both middlewares built with \<open>WithDisabled(true)\<close>.
\<close>

theorem disabled_is_identity_witness:
  "rl_disabled (apply_opts ratelimit_defaults [ratelimit_WithDisabled True]) \<and>
   cbo_disabled (apply_opts circuitbreaker_defaults [circuitbreaker_WithDisabled True :: nat cb_Option]) \<and>
   ratelimit_Server [ratelimit_WithDisabled True] echo = echo \<and>
   circuitbreaker_Server [circuitbreaker_WithDisabled True] echo = echo \<and>
   ratelimit_Server [ratelimit_WithDisabled True] echo bare_ctx (Str ''ping'') proc0
     = (Return (Str ''ping'') None, proc0\<lparr>hstate := 1\<rparr>) \<and>
   circuitbreaker_Server [circuitbreaker_WithDisabled True] echo bare_ctx (Str ''ping'') proc0
     = (Return (Str ''ping'') None, proc0\<lparr>hstate := 1\<rparr>)"
proof -
  have r: "rl_disabled (apply_opts ratelimit_defaults [ratelimit_WithDisabled True])"
    by (simp add: apply_opts_def ratelimit_WithDisabled_def)
  have c: "cbo_disabled (apply_opts circuitbreaker_defaults [circuitbreaker_WithDisabled True :: nat cb_Option])"
    by (simp add: apply_opts_def circuitbreaker_WithDisabled_def)
  have e: "echo bare_ctx (Str ''ping'') proc0 = (Return (Str ''ping'') None, proc0\<lparr>hstate := 1\<rparr>)"
    by (simp add: echo_def proc0_def)
  from disabled_is_identity[of "[ratelimit_WithDisabled True]" echo "[circuitbreaker_WithDisabled True]"] r c
  have "ratelimit_Server [ratelimit_WithDisabled True] echo = echo"
    and "circuitbreaker_Server [circuitbreaker_WithDisabled True] echo = echo" by blast+
  with r c e show ?thesis by simp
qed

end
